theory Spec2Isabelle
  imports Complex_Main
begin

section \<open>Data model\<close>

text \<open>
  The exceptions the modelled code can raise. \<open>IndexError\<close> and \<open>ValueError\<close> come from
  numpy indexing and broadcasting, \<open>RuntimeError\<close> from torch (padding a 0-dimensional
  tensor, broadcasting), \<open>ZeroDivisionError\<close> from Python's \<open>/\<close> on integers.
\<close>

datatype error = IndexError | ValueError | RuntimeError | ZeroDivisionError

text \<open>
  A class score is a floating-point number. The code only compares scores with \<open>0.5\<close>
  and copies them, so a score is a real number or one of the three special values;
  \<open>NaN >= 0.5\<close> is false.
\<close>

datatype score = Finite real | PosInf | NegInf | NaN

fun ge_half :: "score \<Rightarrow> bool" where
  "ge_half (Finite r) = (1 / 2 \<le> r)"
| "ge_half PosInf = True"
| "ge_half NegInf = False"
| "ge_half NaN = False"

text \<open>
  A two-dimensional array (\<open>numpy.ndarray\<close> or \<open>torch.Tensor\<close> of shape \<open>[len rows, ncols]\<close>):
  the list of its rows together with the size of the last axis, which an array with no
  rows still has.
\<close>

record 'a array2 =
  ncols :: nat
  rows :: "'a list list"

definition wf_array2 :: "'a array2 \<Rightarrow> bool" where
  "wf_array2 a = list_all (\<lambda>r. length r = ncols a) (rows a)"

type_synonym span = "int \<times> int"

text \<open>
  What the code reads of one sample: \<open>sentence_obj[0].encoder.offset\<close>,
  \<open>sentence_obj[0].encoded_sentence_length\<close>, row 0 of the tensor \<open>sub_words_mask\<close>,
  the list returned by \<open>sentence_obj[0].get_sub_words_mask(force_true_mask=True)\<close> and the
  list returned by \<open>sentence_obj[0].get_all_unordered_spans()\<close>. Mask entries are
  numbers, true when nonzero.
\<close>

record sample =
  offset :: int
  encoded_sentence_length :: int
  sub_words_mask :: "int list"
  words_mask :: "int list"
  true_spans :: "span list"

text \<open>
  Modelled from the spec: the enumeration \<open>ChunkCode\<close> of \<open>ASTE.dataset.domain.const\<close>,
  which is not among the sources. The spec orders a score pair as (not-split, split), and
  the decoder reads the split score at class index 1, so \<open>int(ChunkCode.NOT_SPLIT)\<close> is 0.
\<close>

definition NOT_SPLIT :: int where
  "NOT_SPLIT = 0"

section \<open>Array primitives\<close>

text \<open>Python's slice \<open>xs[:n]\<close>; a negative \<open>n\<close> counts from the end.\<close>

definition py_take :: "int \<Rightarrow> 'a list \<Rightarrow> 'a list" where
  "py_take n xs = (if 0 \<le> n then take (nat n) xs else take (length xs - nat (- n)) xs)"

text \<open>
  Broadcasting of two one-dimensional arrays against each other: equal lengths pair up,
  a length of one is repeated, anything else is an error.
\<close>

definition broadcast2 :: "error \<Rightarrow> 'a list \<Rightarrow> 'b list \<Rightarrow> error + ('a \<times> 'b) list" where
  "broadcast2 err xs ys =
     (if length xs = length ys then Inr (zip xs ys)
      else if length xs = 1 then Inr (map (\<lambda>y. (hd xs, y)) ys)
      else if length ys = 1 then Inr (map (\<lambda>x. (x, hd ys)) xs)
      else Inl err)"

text \<open>\<open>np.where(cond, xs, c)\<close> with a scalar \<open>c\<close>.\<close>

definition np_where3 :: "int list \<Rightarrow> int list \<Rightarrow> int \<Rightarrow> error + int list" where
  "np_where3 cond xs c =
     (case broadcast2 ValueError cond xs of
        Inl e \<Rightarrow> Inl e
      | Inr ps \<Rightarrow> Inr (map (\<lambda>(m, x). if m \<noteq> 0 then x else c) ps))"

text \<open>\<open>np.where(xs)[0]\<close> and \<open>tensor.nonzero()\<close>: the positions of the nonzero entries, in order.\<close>

definition nonzero :: "int list \<Rightarrow> int list" where
  "nonzero xs = map int (filter (\<lambda>i. xs ! i \<noteq> 0) [0..<length xs])"

text \<open>
  \<open>sliding_window_view(xs, 2)\<close> and \<open>xs.unfold(0, 2, 1)\<close>: the pairs of adjacent elements.
  Both raise on fewer than two elements; every caller here pads to at least two first.
\<close>

fun sliding_window_view2 :: "int list \<Rightarrow> error + span list" where
  "sliding_window_view2 [] = Inl ValueError"
| "sliding_window_view2 [x] = Inl ValueError"
| "sliding_window_view2 [x, y] = Inr [(x, y)]"
| "sliding_window_view2 (x # y # zs) =
     (case sliding_window_view2 (y # zs) of
        Inl e \<Rightarrow> Inl e
      | Inr ws \<Rightarrow> Inr ((x, y) # ws))"

text \<open>\<open>spans[:, 1] -= 1\<close>.\<close>

definition decrement_ends :: "span list \<Rightarrow> span list" where
  "decrement_ends ws = map (\<lambda>(s, e). (s, e - 1)) ws"

section \<open>TransformerWithAggregation.construct_spans_ranges\<close>

text \<open>
  The body of the loop, for one sample. \<open>nonzero().squeeze()\<close> of a mask with exactly one
  true entry is a 0-dimensional tensor, which \<open>torch.nn.functional.pad\<close> refuses. Then 0
  is prepended, \<open>encoded_sentence_length - 1\<close> and \<open>encoded_sentence_length\<close> are appended,
  and the windows are returned with their ends decremented. Nothing is removed.
\<close>

definition spans_boundaries :: "sample \<Rightarrow> error + int list" where
  "spans_boundaries smp =
     (let spans = nonzero (words_mask smp) in
      if length spans = 1 then Inl RuntimeError
      else Inr ((0 # spans) @ [encoded_sentence_length smp - 1] @ [encoded_sentence_length smp]))"

definition sample_spans_ranges :: "sample \<Rightarrow> error + span list" where
  "sample_spans_ranges smp =
     (case spans_boundaries smp of
        Inl e \<Rightarrow> Inl e
      | Inr spans \<Rightarrow>
          (case sliding_window_view2 spans of
             Inl e \<Rightarrow> Inl e
           | Inr unfolded_spans \<Rightarrow> Inr (decrement_ends unfolded_spans)))"

fun construct_spans_ranges :: "sample list \<Rightarrow> error + span list list" where
  "construct_spans_ranges [] = Inr []"
| "construct_spans_ranges (smp # batch) =
     (case sample_spans_ranges smp of
        Inl e \<Rightarrow> Inl e
      | Inr unfolded_spans \<Rightarrow>
          (case construct_spans_ranges batch of
             Inl e \<Rightarrow> Inl e
           | Inr result_spans \<Rightarrow> Inr (unfolded_spans # result_spans)))"

section \<open>Trainer._get_predicted_spans\<close>

text \<open>\<open>np.where(predictions[:, 1] >= 0.5, 1, 0)\<close>: column 1 must exist.\<close>

definition binarize :: "score array2 \<Rightarrow> error + int list" where
  "binarize predictions =
     (if ncols predictions < 2 then Inl IndexError
      else Inr (map (\<lambda>r. if ge_half (r ! 1) then 1 else 0) (rows predictions)))"

text \<open>
  The split array after truncation to the encoded sentence length and after the sub-word
  mask has forced every continuation position to \<open>NOT_SPLIT\<close>. The first argument is
  \<open>self.predict(sample.sentence, sample.mask).cpu().numpy()[0]\<close>, the scorer's output.
\<close>

definition masked_predictions :: "score array2 \<Rightarrow> sample \<Rightarrow> error + int list" where
  "masked_predictions model_out smp =
     (case binarize model_out of
        Inl e \<Rightarrow> Inl e
      | Inr predictions \<Rightarrow>
          np_where3 (py_take (encoded_sentence_length smp) (sub_words_mask smp))
                    (py_take (encoded_sentence_length smp) predictions)
                    NOT_SPLIT)"

text \<open>
  \<open>np.pad(np.where(predictions)[0], 1, constant_values=(offset, len(predictions)-offset))\<close>:
  the sequence handed to the sliding window.
\<close>

definition pad_boundaries :: "int \<Rightarrow> int list \<Rightarrow> int list" where
  "pad_boundaries off predictions =
     (off # nonzero predictions) @ [int (length predictions) - off]"

definition predicted_boundaries :: "score array2 \<Rightarrow> sample \<Rightarrow> error + int list" where
  "predicted_boundaries model_out smp =
     (case masked_predictions model_out smp of
        Inl e \<Rightarrow> Inl e
      | Inr predictions \<Rightarrow> Inr (pad_boundaries (offset smp) predictions))"

text \<open>\<open>np.delete(spans, np.where(spans[:, 0] > spans[:, 1]), axis=0)\<close>.\<close>

definition delete_degenerate :: "span list \<Rightarrow> span list" where
  "delete_degenerate ws = filter (\<lambda>(s, e). \<not> s > e) ws"

definition get_predicted_spans :: "score array2 \<Rightarrow> sample \<Rightarrow> error + span list" where
  "get_predicted_spans model_out smp =
     (case predicted_boundaries model_out smp of
        Inl e \<Rightarrow> Inl e
      | Inr predictions \<Rightarrow>
          (case sliding_window_view2 predictions of
             Inl e \<Rightarrow> Inl e
           | Inr predicted_spans \<Rightarrow> Inr (delete_degenerate (decrement_ends predicted_spans))))"

section \<open>Trainer._count_intersection and Trainer.check_coverage_detected_spans\<close>

text \<open>Both arguments become Python sets of pairs; the result is the size of their intersection.\<close>

definition count_intersection :: "span list \<Rightarrow> span list \<Rightarrow> int" where
  "count_intersection reference_spans predicted_spans =
     int (card (set predicted_spans \<inter> set reference_spans))"

text \<open>The three counters of the evaluation loop.\<close>

record counters =
  num_predicted :: int
  num_correct_predicted :: int
  true_num :: int

text \<open>
  One pass of the inner loop body. The scorer \<open>self.predict\<close> is a parameter: it gives
  the score array of a sample.
\<close>

definition coverage_step :: "(sample \<Rightarrow> score array2) \<Rightarrow> counters \<Rightarrow> sample \<Rightarrow> error + counters" where
  "coverage_step predict c smp =
     (case get_predicted_spans (predict smp) smp of
        Inl e \<Rightarrow> Inl e
      | Inr predicted_spans \<Rightarrow>
          Inr \<lparr>num_predicted = num_predicted c + int (length predicted_spans),
               num_correct_predicted =
                 num_correct_predicted c + count_intersection (true_spans smp) predicted_spans,
               true_num = true_num c + int (length (true_spans smp))\<rparr>)"

text \<open>A \<open>for\<close> loop over a list whose body may raise: the first exception ends the loop.\<close>

fun for_each :: "('s \<Rightarrow> 'a \<Rightarrow> error + 's) \<Rightarrow> 'a list \<Rightarrow> 's \<Rightarrow> error + 's" where
  "for_each body [] s = Inr s"
| "for_each body (x # xs) s =
     (case body s x of
        Inl e \<Rightarrow> Inl e
      | Inr s' \<Rightarrow> for_each body xs s')"

definition coverage_counters :: "(sample \<Rightarrow> score array2) \<Rightarrow> sample list list \<Rightarrow> error + counters" where
  "coverage_counters predict data =
     for_each (\<lambda>c batch. for_each (coverage_step predict) batch c) data
       \<lparr>num_predicted = 0, num_correct_predicted = 0, true_num = 0\<rparr>"

text \<open>
  The result is the returned ratio, as the exact quotient of the two integers, paired
  with the number of extracted spans that the function writes to the log.
\<close>

definition check_coverage_detected_spans ::
  "(sample \<Rightarrow> score array2) \<Rightarrow> sample list list \<Rightarrow> error + (real \<times> int)" where
  "check_coverage_detected_spans predict data =
     (case coverage_counters predict data of
        Inl e \<Rightarrow> Inl e
      | Inr c \<Rightarrow>
          if true_num c = 0 then Inl ZeroDivisionError
          else Inr (real_of_int (num_correct_predicted c) / real_of_int (true_num c),
                    num_predicted c))"

section \<open>Trainer._model_out_for_metrics\<close>

text \<open>
  \<open>torch.zeros(n)\<close> with a 1 stored at index \<open>int(ChunkCode.NOT_SPLIT)\<close>; the store raises
  when the index is out of range.
\<close>

definition fill_value :: "nat \<Rightarrow> error + score list" where
  "fill_value n =
     (let z = replicate n (Finite 0) in
      if 0 \<le> NOT_SPLIT \<and> NOT_SPLIT < int n then Inr (z[nat NOT_SPLIT := Finite 1])
      else if - int n \<le> NOT_SPLIT \<and> NOT_SPLIT < 0 then Inr (z[nat (int n + NOT_SPLIT) := Finite 1])
      else Inl IndexError)"

text \<open>
  \<open>torch.where(sub_mask, model_out, fill_value)\<close> with \<open>sub_mask\<close> the flattened sub-word
  mask as a column: the mask is broadcast along each row, the fill vector along the rows.
\<close>

definition model_out_for_metrics :: "score array2 \<Rightarrow> int list \<Rightarrow> error + score array2" where
  "model_out_for_metrics model_out sub_mask =
     (case fill_value (ncols model_out) of
        Inl e \<Rightarrow> Inl e
      | Inr fill \<Rightarrow>
          (case broadcast2 RuntimeError sub_mask (rows model_out) of
             Inl e \<Rightarrow> Inl e
           | Inr ps \<Rightarrow>
               Inr \<lparr>ncols = ncols model_out,
                    rows = map (\<lambda>(m, r). map2 (\<lambda>x f. if m \<noteq> 0 then x else f) r fill) ps\<rparr>))"

section \<open>Facts about the array primitives\<close>

lemma sliding_window_view2_zip:
  "sliding_window_view2 xs = (if length xs < 2 then Inl ValueError else Inr (zip xs (tl xs)))"
  by (induction xs rule: sliding_window_view2.induct) auto

lemma nonzero_strict: "sorted_wrt (<) (nonzero xs)"
  by (simp add: nonzero_def sorted_wrt_map sorted_wrt_filter)

lemma zip_snoc_left: "length ys = Suc (length bs) \<Longrightarrow> zip (b # bs @ [r]) ys = zip (b # bs) ys"
  using zip_append1 [of "b # bs" "[r]" ys] by simp

lemma windows_chain:
  "sorted_wrt (<) bs \<Longrightarrow>
   sorted_wrt (\<lambda>a b. snd a < fst b) (decrement_ends (zip (l # bs @ [r]) (bs @ [r])))"
proof (induction bs arbitrary: l)
  case Nil
  then show ?case by (simp add: decrement_ends_def)
next
  case (Cons b bs)
  have rest: "sorted_wrt (\<lambda>a b. snd a < fst b) (decrement_ends (zip (b # bs @ [r]) (bs @ [r])))"
    using Cons by simp
  have "\<forall>p \<in> set (zip (b # bs @ [r]) (bs @ [r])). b \<le> fst p"
  proof
    fix p assume "p \<in> set (zip (b # bs @ [r]) (bs @ [r]))"
    then have "p \<in> set (zip (b # bs) (bs @ [r]))"
      by (simp add: zip_snoc_left)
    then have "fst p \<in> set (b # bs)"
      by (metis prod.collapse set_zip_leftD)
    with Cons.prems show "b \<le> fst p" by auto
  qed
  then have "\<forall>p \<in> set (decrement_ends (zip (b # bs @ [r]) (bs @ [r]))). b - 1 < fst p"
    by (auto simp: decrement_ends_def)
  with rest show ?case by (simp add: decrement_ends_def)
qed

lemma delete_degenerate_ok: "p \<in> set (delete_degenerate ws) \<Longrightarrow> fst p \<le> snd p"
  by (auto simp: delete_degenerate_def)

section \<open>Facts about the decoder\<close>

lemmas span_eval = get_predicted_spans_def predicted_boundaries_def masked_predictions_def binarize_def
   np_where3_def broadcast2_def py_take_def pad_boundaries_def NOT_SPLIT_def delete_degenerate_def nonzero_def decrement_ends_def upt_rec


lemma get_predicted_spans_masked:
  "get_predicted_spans model_out smp =
     (case masked_predictions model_out smp of
        Inl e \<Rightarrow> Inl e
      | Inr ps \<Rightarrow>
          Inr (delete_degenerate (decrement_ends
                 (zip (offset smp # nonzero ps @ [int (length ps) - offset smp])
                      (nonzero ps @ [int (length ps) - offset smp])))))"
  by (simp add: get_predicted_spans_def predicted_boundaries_def pad_boundaries_def
      sliding_window_view2_zip split: sum.splits)

lemma py_take_length_eq: "length xs = length ys \<Longrightarrow> length (py_take n xs) = length (py_take n ys)"
  by (simp add: py_take_def)

lemma np_where3_same_length:
  "length cond = length xs \<Longrightarrow>
   np_where3 cond xs c = Inr (map (\<lambda>(m, x). if m \<noteq> 0 then x else c) (zip cond xs))"
  by (simp add: np_where3_def broadcast2_def)

lemma masked_predictions_same_length:
  assumes "2 \<le> ncols model_out"
    and "length (sub_words_mask smp) = length (rows model_out)"
  shows "masked_predictions model_out smp =
         Inr (map (\<lambda>(m, x). if m \<noteq> 0 then x else NOT_SPLIT)
               (zip (py_take (encoded_sentence_length smp) (sub_words_mask smp))
                    (py_take (encoded_sentence_length smp)
                       (map (\<lambda>r. if ge_half (r ! 1) then 1 else 0) (rows model_out)))))"
proof -
  have b: "binarize model_out = Inr (map (\<lambda>r. if ge_half (r ! 1) then 1 else 0) (rows model_out))"
    using assms(1) by (simp add: binarize_def)
  have "length (py_take (encoded_sentence_length smp) (sub_words_mask smp)) =
        length (py_take (encoded_sentence_length smp)
                  (map (\<lambda>r. if ge_half (r ! 1) then 1 else 0 :: int) (rows model_out)))"
    by (rule py_take_length_eq) (simp add: assms(2))
  then show ?thesis
    unfolding masked_predictions_def b by (simp only: sum.case np_where3_same_length)
qed

lemma masked_predictions_total:
  assumes "2 \<le> ncols model_out"
    and "length (sub_words_mask smp) = length (rows model_out)"
  shows "\<exists>ps. masked_predictions model_out smp = Inr ps"
  using masked_predictions_same_length [OF assms] by blast

lemma predicted_spans_shape:
  assumes "get_predicted_spans model_out smp = Inr spans"
  shows "sorted_wrt (\<lambda>a b. snd a < fst b) spans \<and> (\<forall>p \<in> set spans. fst p \<le> snd p)"
proof -
  obtain ps where ps: "masked_predictions model_out smp = Inr ps"
    using assms by (auto simp: get_predicted_spans_masked split: sum.splits)
  let ?ws = "decrement_ends (zip (offset smp # nonzero ps @ [int (length ps) - offset smp])
                                (nonzero ps @ [int (length ps) - offset smp]))"
  have spans: "spans = delete_degenerate ?ws"
    using assms ps by (simp add: get_predicted_spans_masked)
  have "sorted_wrt (\<lambda>a b. snd a < fst b) ?ws"
    by (rule windows_chain) (rule nonzero_strict)
  then have "sorted_wrt (\<lambda>a b. snd a < fst b) spans"
    unfolding spans delete_degenerate_def by (rule sorted_wrt_filter)
  moreover have "\<forall>p \<in> set spans. fst p \<le> snd p"
    unfolding spans by (auto dest: delete_degenerate_ok)
  ultimately show ?thesis by simp
qed


section \<open>Facts about the span ranges of a batch\<close>

lemma nonzero_length: "length (nonzero xs) = length (filter (\<lambda>m. m \<noteq> 0) xs)"
proof -
  have "filter (\<lambda>m. m \<noteq> 0) xs = filter (\<lambda>m. m \<noteq> 0) (map (nth xs) [0..<length xs])"
    by (simp add: map_nth)
  also have "\<dots> = map (nth xs) (filter (\<lambda>i. xs ! i \<noteq> 0) [0..<length xs])"
    by (simp add: filter_map comp_def)
  finally show ?thesis by (simp add: nonzero_def)
qed

lemma nonzero_first_true:
  assumes "xs \<noteq> []" and "hd xs \<noteq> 0"
  shows "\<exists>bs. nonzero xs = 0 # bs"
proof -
  have "[0..<length xs] = 0 # [Suc 0..<length xs]"
    using assms(1) by (simp add: upt_conv_Cons)
  moreover have "xs ! 0 \<noteq> 0" using assms by (simp add: hd_conv_nth)
  ultimately show ?thesis by (simp add: nonzero_def)
qed

lemma sample_spans_ranges_eq:
  "sample_spans_ranges smp =
     (if length (nonzero (words_mask smp)) = 1 then Inl RuntimeError
      else Inr (decrement_ends
                  (zip (0 # nonzero (words_mask smp)
                          @ [encoded_sentence_length smp - 1, encoded_sentence_length smp])
                       (nonzero (words_mask smp)
                          @ [encoded_sentence_length smp - 1, encoded_sentence_length smp]))))"
  by (simp add: sample_spans_ranges_def spans_boundaries_def Let_def sliding_window_view2_zip)

lemma construct_spans_ranges_nth:
  "construct_spans_ranges batch = Inr result_spans \<Longrightarrow>
   length result_spans = length batch \<and>
   (\<forall>i<length batch. sample_spans_ranges (batch ! i) = Inr (result_spans ! i))"
proof (induction batch arbitrary: result_spans)
  case Nil
  then show ?case by simp
next
  case (Cons smp batch)
  from Cons.prems obtain sp rs where sp: "sample_spans_ranges smp = Inr sp"
    and rs: "construct_spans_ranges batch = Inr rs" and res: "result_spans = sp # rs"
    by (auto split: sum.splits)
  from Cons.IH [OF rs] have len: "length rs = length batch"
    and nth: "\<forall>i<length batch. sample_spans_ranges (batch ! i) = Inr (rs ! i)" by simp_all
  show ?case
  proof (intro conjI allI impI)
    show "length result_spans = length (smp # batch)" using len res by simp
    fix i assume "i < length (smp # batch)"
    then show "sample_spans_ranges ((smp # batch) ! i) = Inr (result_spans ! i)"
      using sp nth res by (cases i) simp_all
  qed
qed

lemma construct_spans_ranges_total:
  "(\<forall>smp \<in> set batch. \<exists>sp. sample_spans_ranges smp = Inr sp) \<Longrightarrow>
   \<exists>result_spans. construct_spans_ranges batch = Inr result_spans"
  by (induction batch) auto

lemma windows_nondegenerate_iff:
  "(\<forall>p \<in> set (decrement_ends (zip bs (tl bs))). fst p \<le> snd p) \<longleftrightarrow> sorted_wrt (<) bs"
proof (induction bs rule: induct_list012)
  case 1
  then show ?case by (simp add: decrement_ends_def)
next
  case (2 x)
  then show ?case by (simp add: decrement_ends_def)
next
  case (3 x y zs)
  have "sorted_wrt (<) (x # y # zs) \<longleftrightarrow> x < y \<and> sorted_wrt (<) (y # zs)"
    by (rule sorted_wrt2) (simp add: transp_def)
  moreover have "(\<forall>p \<in> set (decrement_ends (zip (x # y # zs) (tl (x # y # zs)))). fst p \<le> snd p)
      \<longleftrightarrow> x < y \<and> (\<forall>p \<in> set (decrement_ends (zip (y # zs) (tl (y # zs)))). fst p \<le> snd p)"
    by (simp add: decrement_ends_def)
  ultimately show ?case using 3 by simp
qed

lemma last_windows:
  "last (zip (x # xs @ [a, b]) (xs @ [a, b])) = (a, b)"
  by (induction xs arbitrary: x) simp_all

lemma decrement_ends_last:
  "ws \<noteq> [] \<Longrightarrow> last (decrement_ends ws) = (fst (last ws), snd (last ws) - 1)"
  by (simp add: decrement_ends_def last_map case_prod_beta)

lemma decrement_ends_length: "length (decrement_ends ws) = length ws"
  by (simp add: decrement_ends_def)

lemmas ranges_eval = sample_spans_ranges_def spans_boundaries_def nonzero_def decrement_ends_def upt_rec

lemma sample_spans_ranges_first_true:
  assumes r: "sample_spans_ranges smp = Inr spans"
    and ne: "words_mask smp \<noteq> []" and h: "hd (words_mask smp) \<noteq> 0"
  shows "length spans = length (filter (\<lambda>m. m \<noteq> 0) (words_mask smp)) + 2
         \<and> hd spans = (0, - 1)
         \<and> last spans = (encoded_sentence_length smp - 1, encoded_sentence_length smp - 1)
         \<and> 2 \<le> length (filter (\<lambda>m. m \<noteq> 0) (words_mask smp))"
proof -
  let ?L = "encoded_sentence_length smp"
  obtain bs where bs: "nonzero (words_mask smp) = 0 # bs"
    using nonzero_first_true [OF ne h] by blast
  have k1: "length (nonzero (words_mask smp)) \<noteq> 1"
    using r by (auto simp: sample_spans_ranges_eq split: if_splits)
  have spans: "spans = decrement_ends (zip (0 # (0 # bs) @ [?L - 1, ?L]) ((0 # bs) @ [?L - 1, ?L]))"
    using r k1 bs by (simp add: sample_spans_ranges_eq)
  have len: "length spans = length (nonzero (words_mask smp)) + 2"
    unfolding spans bs by (simp add: decrement_ends_length)
  have hd: "hd spans = (0, - 1)"
    unfolding spans by (simp add: decrement_ends_def)
  have "last spans = (fst (last (zip (0 # (0 # bs) @ [?L - 1, ?L]) ((0 # bs) @ [?L - 1, ?L]))),
                      snd (last (zip (0 # (0 # bs) @ [?L - 1, ?L]) ((0 # bs) @ [?L - 1, ?L]))) - 1)"
    unfolding spans by (rule decrement_ends_last) simp
  then have last: "last spans = (?L - 1, ?L - 1)"
    by (simp only: last_windows fst_conv snd_conv)
  have "2 \<le> length (nonzero (words_mask smp))"
    using k1 bs by (cases bs) simp_all
  with len hd last show ?thesis by (simp add: nonzero_length)
qed

lemma nonzero_0_3_5:
  assumes "map (\<lambda>m. m \<noteq> 0) xs = [True, False, False, True, False, True]"
  shows "nonzero xs = [0, 3, 5]"
proof -
  from assms obtain a d f where xs: "xs = [a, 0, 0, d, 0, f]" and nz: "a \<noteq> 0" "d \<noteq> 0" "f \<noteq> 0"
    by (auto simp: map_eq_Cons_conv)
  show ?thesis unfolding xs using nz by (simp add: nonzero_def upt_rec)
qed

lemma py_take_length_nonneg:
  "0 \<le> n \<Longrightarrow> n \<le> int (length xs) \<Longrightarrow> int (length (py_take n xs)) = n"
  by (simp add: py_take_def)

lemma nonzero_set: "set (nonzero xs) = {int j |j. j < length xs \<and> xs ! j \<noteq> 0}"
  by (auto simp: nonzero_def)

lemma boundaries_strict_iff:
  "sorted_wrt (<) (0 # nonzero m @ [L - 1, L]) \<longleftrightarrow>
     2 \<le> L \<and> (\<forall>j<length m. m ! j \<noteq> 0 \<longrightarrow> 0 < j \<and> int j < L - 1)"
proof -
  have a: "sorted_wrt (<) (0 # nonzero m @ [L - 1, L]) \<longleftrightarrow>
          0 < L - 1 \<and> (\<forall>x \<in> set (nonzero m). 0 < x \<and> x < L - 1)"
    using nonzero_strict [of m] by (auto simp: sorted_wrt_append)
  have b: "(\<forall>x \<in> set (nonzero m). 0 < x \<and> x < L - 1) \<longleftrightarrow>
             (\<forall>j<length m. m ! j \<noteq> 0 \<longrightarrow> 0 < j \<and> int j < L - 1)"
  proof
    assume l: "\<forall>x \<in> set (nonzero m). 0 < x \<and> x < L - 1"
    show "\<forall>j<length m. m ! j \<noteq> 0 \<longrightarrow> 0 < j \<and> int j < L - 1"
    proof (intro allI impI)
      fix j assume "j < length m" and "m ! j \<noteq> 0"
      then have "int j \<in> set (nonzero m)" unfolding nonzero_set by blast
      with l have "0 < int j \<and> int j < L - 1" by blast
      then show "0 < j \<and> int j < L - 1" by simp
    qed
  next
    assume r: "\<forall>j<length m. m ! j \<noteq> 0 \<longrightarrow> 0 < j \<and> int j < L - 1"
    show "\<forall>x \<in> set (nonzero m). 0 < x \<and> x < L - 1"
    proof
      fix x assume "x \<in> set (nonzero m)"
      then obtain j where "x = int j" "j < length m" "m ! j \<noteq> 0"
        unfolding nonzero_set by blast
      with r show "0 < x \<and> x < L - 1" by simp
    qed
  qed
  have c: "0 < L - 1 \<longleftrightarrow> 2 \<le> L" by arith
  show ?thesis by (simp only: a b c)
qed

lemma sample_spans_ranges_windows:
  assumes "sample_spans_ranges smp = Inr spans"
  shows "spans = decrement_ends
                   (zip (0 # nonzero (words_mask smp)
                           @ [encoded_sentence_length smp - 1, encoded_sentence_length smp])
                        (nonzero (words_mask smp)
                           @ [encoded_sentence_length smp - 1, encoded_sentence_length smp]))
         \<and> length spans = length (nonzero (words_mask smp)) + 2
         \<and> ((\<forall>(s, e) \<in> set spans. s \<le> e) \<longleftrightarrow>
              sorted_wrt (<) (0 # nonzero (words_mask smp)
                                @ [encoded_sentence_length smp - 1, encoded_sentence_length smp]))"
proof -
  let ?L = "encoded_sentence_length smp"
  let ?bs = "0 # nonzero (words_mask smp) @ [?L - 1, ?L]"
  have eq: "spans = decrement_ends (zip ?bs (tl ?bs))"
    using assms by (simp add: sample_spans_ranges_eq split: if_splits)
  have len: "length spans = length (nonzero (words_mask smp)) + 2"
    unfolding eq by (simp add: decrement_ends_length)
  have "(\<forall>(s, e) \<in> set spans. s \<le> e) \<longleftrightarrow> sorted_wrt (<) ?bs"
    unfolding eq using windows_nondegenerate_iff [of ?bs] by (simp add: case_prod_beta)
  with eq len show ?thesis by simp
qed

section \<open>Facts about masking\<close>

lemma py_take_take:
  "py_take n xs = take (if 0 \<le> n then nat n else length xs - nat (- n)) xs"
  by (simp add: py_take_def)

lemma masked_zip_take:
  assumes "length msk = length xs"
  shows "map (\<lambda>(m, x). if m \<noteq> 0 then x else c) (zip (py_take n msk) (py_take n xs)) =
         py_take n (map (\<lambda>(m, x). if m \<noteq> 0 then x else c) (zip msk xs))"
  using assms by (simp add: py_take_take take_map take_zip)

lemma masked_agree:
  assumes "length msk = length rs" and "length rs = length rs'"
    and "\<forall>i<length rs. msk ! i \<noteq> 0 \<longrightarrow> rs ! i = rs' ! i"
  shows "map (\<lambda>(m, x). if m \<noteq> 0 then x else c) (zip msk (map g rs)) =
         map (\<lambda>(m, x). if m \<noteq> 0 then x else (c :: int)) (zip msk (map g rs'))"
proof (rule nth_equalityI)
  show "length (map (\<lambda>(m, x). if m \<noteq> 0 then x else c) (zip msk (map g rs))) =
        length (map (\<lambda>(m, x). if m \<noteq> 0 then x else c) (zip msk (map g rs')))"
    using assms by simp
next
  fix i assume "i < length (map (\<lambda>(m, x). if m \<noteq> 0 then x else c) (zip msk (map g rs)))"
  then have i: "i < length rs" using assms by simp
  then have i': "i < length rs'" "i < length msk" using assms by simp_all
  show "map (\<lambda>(m, x). if m \<noteq> 0 then x else c) (zip msk (map g rs)) ! i =
        map (\<lambda>(m, x). if m \<noteq> 0 then x else c) (zip msk (map g rs')) ! i"
    using i i' assms(3) by simp
qed

lemma masked_predictions_agree:
  assumes c: "ncols model_out = ncols model_out'"
    and l: "length (rows model_out) = length (rows model_out')"
    and m: "length (sub_words_mask smp) = length (rows model_out)"
    and a: "\<forall>i<length (rows model_out).
              sub_words_mask smp ! i \<noteq> 0 \<longrightarrow> rows model_out ! i = rows model_out' ! i"
  shows "masked_predictions model_out smp = masked_predictions model_out' smp"
proof (cases "ncols model_out < 2")
  case True
  with c show ?thesis by (simp add: masked_predictions_def binarize_def)
next
  case False
  let ?g = "\<lambda>r. if ge_half (r ! 1) then 1 else 0 :: int"
  let ?N = "encoded_sentence_length smp"
  have n: "2 \<le> ncols model_out" "2 \<le> ncols model_out'" using False c by simp_all
  have m': "length (sub_words_mask smp) = length (rows model_out')" using m l by simp
  have "map (\<lambda>(m, x). if m \<noteq> 0 then x else NOT_SPLIT) (zip (sub_words_mask smp) (map ?g (rows model_out))) =
        map (\<lambda>(m, x). if m \<noteq> 0 then x else NOT_SPLIT) (zip (sub_words_mask smp) (map ?g (rows model_out')))"
    by (rule masked_agree [OF m l a])
  then have "map (\<lambda>(m, x). if m \<noteq> 0 then x else NOT_SPLIT)
               (zip (py_take ?N (sub_words_mask smp)) (py_take ?N (map ?g (rows model_out)))) =
             map (\<lambda>(m, x). if m \<noteq> 0 then x else NOT_SPLIT)
               (zip (py_take ?N (sub_words_mask smp)) (py_take ?N (map ?g (rows model_out'))))"
    using m m' by (simp add: masked_zip_take)
  then show ?thesis
    unfolding masked_predictions_same_length [OF n(1) m] masked_predictions_same_length [OF n(2) m']
    by simp
qed

lemma masked_predictions_nonzero_mask:
  assumes mp: "masked_predictions model_out smp = Inr ps"
    and m: "length (sub_words_mask smp) = length (rows model_out)"
    and b: "b \<in> set (nonzero ps)"
  shows "nat b < length (sub_words_mask smp) \<and> sub_words_mask smp ! nat b \<noteq> 0"
proof -
  let ?g = "\<lambda>r. if ge_half (r ! 1) then 1 else 0 :: int"
  let ?N = "encoded_sentence_length smp"
  let ?l = "map (\<lambda>(m, x). if m \<noteq> 0 then x else NOT_SPLIT) (zip (sub_words_mask smp) (map ?g (rows model_out)))"
  have n: "2 \<le> ncols model_out"
    using mp by (auto simp: masked_predictions_def binarize_def split: if_splits)
  have "ps = map (\<lambda>(m, x). if m \<noteq> 0 then x else NOT_SPLIT)
               (zip (py_take ?N (sub_words_mask smp)) (py_take ?N (map ?g (rows model_out))))"
    using mp masked_predictions_same_length [OF n m] by simp
  then have ps: "ps = py_take ?N ?l"
    using m by (simp add: masked_zip_take)
  from b obtain i where i: "b = int i" "i < length ps" "ps ! i \<noteq> 0"
    by (auto simp: nonzero_def)
  have il: "i < length ?l" using i(2) unfolding ps by (simp add: py_take_take)
  then have im: "i < length (sub_words_mask smp)" by simp
  have "ps ! i = ?l ! i" using i(2) unfolding ps by (simp add: py_take_take)
  with i(3) have "?l ! i \<noteq> 0" by simp
  then have "sub_words_mask smp ! i \<noteq> 0"
    using il m by (auto simp: NOT_SPLIT_def split: if_splits)
  with im i(1) show ?thesis by simp
qed

section \<open>Facts about the coverage evaluation\<close>

lemma count_intersection_bounds:
  "0 \<le> count_intersection reference_spans predicted_spans \<and>
   count_intersection reference_spans predicted_spans \<le> int (length reference_spans)"
proof -
  have "card (set predicted_spans \<inter> set reference_spans) \<le> card (set reference_spans)"
    by (rule card_mono) simp_all
  also have "\<dots> \<le> length reference_spans" by (rule card_length)
  finally show ?thesis by (simp add: count_intersection_def)
qed

lemma for_each_append:
  "for_each body (xs @ ys) s =
     (case for_each body xs s of Inl e \<Rightarrow> Inl e | Inr s' \<Rightarrow> for_each body ys s')"
  by (induction xs arbitrary: s) (simp_all split: sum.splits)

lemma for_each_nested:
  "for_each (\<lambda>c batch. for_each body batch c) data s = for_each body (concat data) s"
  by (induction data arbitrary: s) (simp_all add: for_each_append split: sum.splits)

lemma coverage_counters_concat:
  "coverage_counters predict data =
     for_each (coverage_step predict) (concat data)
       \<lparr>num_predicted = 0, num_correct_predicted = 0, true_num = 0\<rparr>"
  by (simp add: coverage_counters_def for_each_nested)

lemma coverage_step_counters:
  assumes "coverage_step predict c smp = Inr c'"
  shows "true_num c' = true_num c + int (length (true_spans smp))
         \<and> num_predicted c \<le> num_predicted c'
         \<and> num_correct_predicted c \<le> num_correct_predicted c'
         \<and> num_correct_predicted c' - num_correct_predicted c \<le> true_num c' - true_num c"
proof -
  from assms obtain sp where sp: "get_predicted_spans (predict smp) smp = Inr sp"
    and c': "c' = \<lparr>num_predicted = num_predicted c + int (length sp),
               num_correct_predicted =
                 num_correct_predicted c + count_intersection (true_spans smp) sp,
               true_num = true_num c + int (length (true_spans smp))\<rparr>"
    by (auto simp: coverage_step_def split: sum.splits)
  show ?thesis
    unfolding c' using count_intersection_bounds [of "true_spans smp" sp] by simp
qed

lemma coverage_loop_counters:
  "for_each (coverage_step predict) xs c = Inr c' \<Longrightarrow>
   true_num c' = true_num c + int (sum_list (map (\<lambda>smp. length (true_spans smp)) xs))
   \<and> num_predicted c \<le> num_predicted c'
   \<and> num_correct_predicted c \<le> num_correct_predicted c'
   \<and> num_correct_predicted c' - num_correct_predicted c \<le> true_num c' - true_num c"
proof (induction xs arbitrary: c)
  case Nil
  then show ?case by simp
next
  case (Cons smp xs)
  from Cons.prems obtain c1 where s: "coverage_step predict c smp = Inr c1"
    and r: "for_each (coverage_step predict) xs c1 = Inr c'"
    by (auto split: sum.splits)
  from coverage_step_counters [OF s] Cons.IH [OF r] show ?case by simp
qed

lemma coverage_loop_total:
  "(\<forall>smp \<in> set xs. \<exists>sp. get_predicted_spans (predict smp) smp = Inr sp) \<Longrightarrow>
   \<exists>c'. for_each (coverage_step predict) xs c = Inr c'"
proof (induction xs arbitrary: c)
  case Nil
  then show ?case by simp
next
  case (Cons smp xs)
  then obtain sp where "get_predicted_spans (predict smp) smp = Inr sp" by auto
  then obtain c1 where "coverage_step predict c smp = Inr c1"
    by (simp add: coverage_step_def)
  moreover from Cons obtain c' where "for_each (coverage_step predict) xs c1 = Inr c'"
    by fastforce
  ultimately show ?case by simp
qed

lemma coverage_counters_final:
  assumes "coverage_counters predict data = Inr c"
  shows "true_num c = int (sum_list (map (\<lambda>smp. length (true_spans smp)) (concat data)))
         \<and> 0 \<le> num_predicted c \<and> 0 \<le> num_correct_predicted c
         \<and> num_correct_predicted c \<le> true_num c"
  using coverage_loop_counters [OF assms [unfolded coverage_counters_concat]] by simp

section \<open>Facts about the metrics input\<close>

lemma fill_value_pos:
  "0 < n \<Longrightarrow> fill_value n = Inr ((replicate n (Finite 0))[0 := Finite 1])"
  by (simp add: fill_value_def NOT_SPLIT_def)

lemma fill_value_zero: "fill_value 0 = Inl IndexError"
  by (simp add: fill_value_def NOT_SPLIT_def)

lemma where_row_true:
  "length r = length fill \<Longrightarrow> m \<noteq> 0 \<Longrightarrow> map2 (\<lambda>x f. if m \<noteq> (0::int) then x else f) r fill = r"
  by (induction r fill rule: list_induct2) simp_all

lemma where_row_false:
  "length r = length fill \<Longrightarrow> map2 (\<lambda>x f. if (0::int) \<noteq> 0 then x else f) r fill = fill"
  by (induction r fill rule: list_induct2) simp_all

section \<open>Claims\<close>

text \<open>
  Claim C4. Whatever the score array, the sub-word mask, the encoded sentence length and
  the offset are, a span sequence returned by \<open>Trainer._get_predicted_spans\<close> is strictly
  increasing in its starts, every span ends before the next one starts (no two spans
  overlap), and every span has \<open>start \<le> end\<close>. The function does return a sequence when
  the score array has at least two classes and as many rows as the sub-word mask has
  entries.
\<close>

theorem predicted_spans_ordered_disjoint:
  "(\<forall>spans. get_predicted_spans model_out smp = Inr spans \<longrightarrow>
      sorted_wrt (\<lambda>a b. fst a < fst b) spans
      \<and> sorted_wrt (\<lambda>a b. snd a < fst b) spans
      \<and> (\<forall>(s, e) \<in> set spans. s \<le> e))
   \<and> (2 \<le> ncols model_out \<and> length (sub_words_mask smp) = length (rows model_out) \<longrightarrow>
      (\<exists>spans. get_predicted_spans model_out smp = Inr spans))"
proof (intro conjI allI impI)
  fix spans assume r: "get_predicted_spans model_out smp = Inr spans"
  have s: "sorted_wrt (\<lambda>a b. snd a < fst b) spans" and v: "\<forall>p \<in> set spans. fst p \<le> snd p"
    using predicted_spans_shape [OF r] by simp_all
  show "sorted_wrt (\<lambda>a b. snd a < fst b) spans" by (rule s)
  show "\<forall>(s, e) \<in> set spans. s \<le> e" using v by auto
  show "sorted_wrt (\<lambda>a b. fst a < fst b) spans"
  proof (rule sorted_wrt_mono_rel [OF _ s])
    fix x y assume "x \<in> set spans" "y \<in> set spans" "snd x < fst y"
    with v show "fst x < fst y" by force
  qed
next
  assume "2 \<le> ncols model_out \<and> length (sub_words_mask smp) = length (rows model_out)"
  then obtain ps where "masked_predictions model_out smp = Inr ps"
    using masked_predictions_total by blast
  then show "\<exists>spans. get_predicted_spans model_out smp = Inr spans"
    by (simp add: get_predicted_spans_masked)
qed

theorem predicted_spans_ordered_disjoint_witness:
  "get_predicted_spans
     \<lparr>ncols = 2, rows = [[Finite 0.1, Finite 0.9], [Finite 1, Finite 0], [Finite 1, Finite 0],
                         [Finite 0.5, Finite 0.5], [NaN, NaN], [Finite 0, PosInf]]\<rparr>
     \<lparr>offset = 0, encoded_sentence_length = 6, sub_words_mask = [1, 1, 1, 1, 1, 1],
      words_mask = [1, 0, 0, 1, 0, 1], true_spans = []\<rparr>
   = Inr [(0, 2), (3, 4), (5, 5)]
   \<and> sorted_wrt (\<lambda>a b. fst a < fst b) ([(0, 2), (3, 4), (5, 5)] :: span list)
   \<and> sorted_wrt (\<lambda>a b. snd a < fst b) ([(0, 2), (3, 4), (5, 5)] :: span list)
   \<and> list_all (\<lambda>(s, e). s \<le> e) ([(0, 2), (3, 4), (5, 5)] :: span list)"
proof -
  let ?m = "\<lparr>ncols = 2, rows = [[Finite 0.1, Finite 0.9], [Finite 1, Finite 0], [Finite 1, Finite 0],
                         [Finite 0.5, Finite 0.5], [NaN, NaN], [Finite 0, PosInf]]\<rparr>"
  let ?s = "\<lparr>offset = 0, encoded_sentence_length = 6, sub_words_mask = [1, 1, 1, 1, 1, 1],
      words_mask = [1, 0, 0, 1, 0, 1], true_spans = []\<rparr>"
  have r: "get_predicted_spans ?m ?s = Inr [(0, 2), (3, 4), (5, 5)]"
    by (simp add: span_eval)
  have "sorted_wrt (\<lambda>a b. fst a < fst b) ([(0, 2), (3, 4), (5, 5)] :: span list)
      \<and> sorted_wrt (\<lambda>a b. snd a < fst b) ([(0, 2), (3, 4), (5, 5)] :: span list)
      \<and> (\<forall>(s, e) \<in> set ([(0, 2), (3, 4), (5, 5)] :: span list). s \<le> e)"
    using predicted_spans_ordered_disjoint [of ?m ?s] r by blast
  then have "sorted_wrt (\<lambda>a b. fst a < fst b) ([(0, 2), (3, 4), (5, 5)] :: span list)
      \<and> sorted_wrt (\<lambda>a b. snd a < fst b) ([(0, 2), (3, 4), (5, 5)] :: span list)
      \<and> list_all (\<lambda>(s, e). s \<le> e) ([(0, 2), (3, 4), (5, 5)] :: span list)"
    unfolding list_all_iff by blast
  with r show ?thesis by (rule conjI)
qed

text \<open>
  Claim C9. When \<open>TransformerWithAggregation.construct_spans_ranges\<close> returns, it returns
  one span list per sample, and for every sample whose mask (as returned by
  \<open>get_sub_words_mask(force_true_mask=True)\<close>) has a true first element the span list has
  \<open>k + 2\<close> pairs, \<open>k\<close> the number of true mask entries, it starts with the degenerate
  pair \<open>(0, -1)\<close> and it ends with \<open>(L - 1, L - 1)\<close>, \<open>L\<close> the encoded sentence length.
  The function does return when every sample of the batch has at least two true mask
  entries.
\<close>

theorem construct_spans_ranges_first_true:
  "(\<forall>result_spans. construct_spans_ranges batch = Inr result_spans \<longrightarrow>
      length result_spans = length batch \<and>
      (\<forall>i<length batch.
         words_mask (batch ! i) \<noteq> [] \<and> hd (words_mask (batch ! i)) \<noteq> 0 \<longrightarrow>
           length (result_spans ! i) = length (filter (\<lambda>m. m \<noteq> 0) (words_mask (batch ! i))) + 2
           \<and> hd (result_spans ! i) = (0, - 1)
           \<and> last (result_spans ! i) =
               (encoded_sentence_length (batch ! i) - 1, encoded_sentence_length (batch ! i) - 1)))
   \<and> ((\<forall>smp \<in> set batch. 2 \<le> length (filter (\<lambda>m. m \<noteq> 0) (words_mask smp))) \<longrightarrow>
        (\<exists>result_spans. construct_spans_ranges batch = Inr result_spans))"
proof (rule conjI)
  show "\<forall>result_spans. construct_spans_ranges batch = Inr result_spans \<longrightarrow>
      length result_spans = length batch \<and>
      (\<forall>i<length batch.
         words_mask (batch ! i) \<noteq> [] \<and> hd (words_mask (batch ! i)) \<noteq> 0 \<longrightarrow>
           length (result_spans ! i) = length (filter (\<lambda>m. m \<noteq> 0) (words_mask (batch ! i))) + 2
           \<and> hd (result_spans ! i) = (0, - 1)
           \<and> last (result_spans ! i) =
               (encoded_sentence_length (batch ! i) - 1, encoded_sentence_length (batch ! i) - 1))"
  proof (intro allI impI)
    fix result_spans assume r: "construct_spans_ranges batch = Inr result_spans"
    have len: "length result_spans = length batch"
      using construct_spans_ranges_nth [OF r] by simp
    have "\<And>i. i < length batch \<Longrightarrow>
         words_mask (batch ! i) \<noteq> [] \<and> hd (words_mask (batch ! i)) \<noteq> 0 \<Longrightarrow>
           length (result_spans ! i) = length (filter (\<lambda>m. m \<noteq> 0) (words_mask (batch ! i))) + 2
           \<and> hd (result_spans ! i) = (0, - 1)
           \<and> last (result_spans ! i) =
               (encoded_sentence_length (batch ! i) - 1, encoded_sentence_length (batch ! i) - 1)"
    proof -
      fix i assume i: "i < length batch"
        and m: "words_mask (batch ! i) \<noteq> [] \<and> hd (words_mask (batch ! i)) \<noteq> 0"
      have s: "sample_spans_ranges (batch ! i) = Inr (result_spans ! i)"
        using construct_spans_ranges_nth [OF r] i by simp
      from sample_spans_ranges_first_true [OF s] m
      show "length (result_spans ! i) = length (filter (\<lambda>m. m \<noteq> 0) (words_mask (batch ! i))) + 2
           \<and> hd (result_spans ! i) = (0, - 1)
           \<and> last (result_spans ! i) =
               (encoded_sentence_length (batch ! i) - 1, encoded_sentence_length (batch ! i) - 1)"
        by simp
    qed
    with len show "length result_spans = length batch \<and>
      (\<forall>i<length batch.
         words_mask (batch ! i) \<noteq> [] \<and> hd (words_mask (batch ! i)) \<noteq> 0 \<longrightarrow>
           length (result_spans ! i) = length (filter (\<lambda>m. m \<noteq> 0) (words_mask (batch ! i))) + 2
           \<and> hd (result_spans ! i) = (0, - 1)
           \<and> last (result_spans ! i) =
               (encoded_sentence_length (batch ! i) - 1, encoded_sentence_length (batch ! i) - 1))"
      by blast
  qed
next
  show "(\<forall>smp \<in> set batch. 2 \<le> length (filter (\<lambda>m. m \<noteq> 0) (words_mask smp))) \<longrightarrow>
        (\<exists>result_spans. construct_spans_ranges batch = Inr result_spans)"
  proof
    assume k: "\<forall>smp \<in> set batch. 2 \<le> length (filter (\<lambda>m. m \<noteq> 0) (words_mask smp))"
    have "\<forall>smp \<in> set batch. \<exists>sp. sample_spans_ranges smp = Inr sp"
    proof
      fix smp assume "smp \<in> set batch"
      with k have "length (nonzero (words_mask smp)) \<noteq> 1" by (auto simp: nonzero_length)
      then show "\<exists>sp. sample_spans_ranges smp = Inr sp" by (simp add: sample_spans_ranges_eq)
    qed
    then show "\<exists>result_spans. construct_spans_ranges batch = Inr result_spans"
      by (rule construct_spans_ranges_total)
  qed
qed

theorem construct_spans_ranges_first_true_witness:
  "construct_spans_ranges
     [\<lparr>offset = 1, encoded_sentence_length = 6, sub_words_mask = [1, 1, 0, 1, 0, 1],
       words_mask = [1, 1, 0, 1, 0, 1], true_spans = []\<rparr>]
   = Inr [[(0, - 1), (0, 0), (1, 2), (3, 4), (5, 4), (5, 5)]]
   \<and> length ([(0, - 1), (0, 0), (1, 2), (3, 4), (5, 4), (5, 5)] :: span list) = 4 + 2
   \<and> hd ([(0, - 1), (0, 0), (1, 2), (3, 4), (5, 4), (5, 5)] :: span list) = (0, - 1)
   \<and> last ([(0, - 1), (0, 0), (1, 2), (3, 4), (5, 4), (5, 5)] :: span list) = (6 - 1, 6 - 1)"
proof -
  let ?s = "\<lparr>offset = 1, encoded_sentence_length = 6, sub_words_mask = [1, 1, 0, 1, 0, 1],
       words_mask = [1, 1, 0, 1, 0, 1], true_spans = []\<rparr>"
  let ?out = "[(0, - 1), (0, 0), (1, 2), (3, 4), (5, 4), (5, 5)] :: span list"
  have r: "construct_spans_ranges [?s] = Inr [?out]"
    by (simp add: ranges_eval)
  have "\<forall>i<length [?s]. words_mask ([?s] ! i) \<noteq> [] \<and> hd (words_mask ([?s] ! i)) \<noteq> 0 \<longrightarrow>
           length ([?out] ! i) = length (filter (\<lambda>m. m \<noteq> 0) (words_mask ([?s] ! i))) + 2
           \<and> hd ([?out] ! i) = (0, - 1)
           \<and> last ([?out] ! i) =
               (encoded_sentence_length ([?s] ! i) - 1, encoded_sentence_length ([?s] ! i) - 1)"
    using construct_spans_ranges_first_true [of "[?s]"] r by blast
  then have "length ?out = 4 + 2 \<and> hd ?out = (0, - 1) \<and> last ?out = (6 - 1, 6 - 1)"
    by simp
  with r show ?thesis by (rule conjI)
qed

text \<open>
  Claim C1, as amended. Every span returned by \<open>Trainer._get_predicted_spans\<close> has
  \<open>start \<le> end\<close>: degenerate windows are deleted there.
  \<open>TransformerWithAggregation.construct_spans_ranges\<close> deletes nothing: for each sample
  it returns one span \<open>(b, b' - 1)\<close> per pair \<open>b, b'\<close> of adjacent elements of the boundary
  sequence 0, the true mask positions, \<open>L - 1\<close>, \<open>L\<close>, hence \<open>k + 2\<close> spans for \<open>k\<close> true
  positions. All of them have \<open>start \<le> end\<close> exactly when that sequence is strictly
  increasing, that is exactly when \<open>L \<ge> 2\<close> and every true mask position \<open>j\<close> has
  \<open>0 < j < L - 1\<close>; so not when the mask is true at position 0 or at position \<open>L - 1\<close>.
\<close>

theorem spans_start_le_end:
  "(\<forall>spans. get_predicted_spans model_out smp = Inr spans \<longrightarrow> (\<forall>(s, e) \<in> set spans. s \<le> e))
   \<and> (\<forall>result_spans. construct_spans_ranges batch = Inr result_spans \<longrightarrow>
        (\<forall>i<length batch.
           result_spans ! i =
             decrement_ends
               (zip (0 # nonzero (words_mask (batch ! i))
                       @ [encoded_sentence_length (batch ! i) - 1, encoded_sentence_length (batch ! i)])
                    (nonzero (words_mask (batch ! i))
                       @ [encoded_sentence_length (batch ! i) - 1, encoded_sentence_length (batch ! i)]))
           \<and> length (result_spans ! i) = length (nonzero (words_mask (batch ! i))) + 2
           \<and> ((\<forall>(s, e) \<in> set (result_spans ! i). s \<le> e) \<longleftrightarrow>
                sorted_wrt (<)
                  (0 # nonzero (words_mask (batch ! i))
                     @ [encoded_sentence_length (batch ! i) - 1, encoded_sentence_length (batch ! i)]))
           \<and> ((\<forall>(s, e) \<in> set (result_spans ! i). s \<le> e) \<longleftrightarrow>
                2 \<le> encoded_sentence_length (batch ! i)
                \<and> (\<forall>j<length (words_mask (batch ! i)).
                      words_mask (batch ! i) ! j \<noteq> 0 \<longrightarrow>
                        0 < j \<and> int j < encoded_sentence_length (batch ! i) - 1))
           \<and> (words_mask (batch ! i) \<noteq> [] \<and> words_mask (batch ! i) ! 0 \<noteq> 0 \<longrightarrow>
                \<not> (\<forall>(s, e) \<in> set (result_spans ! i). s \<le> e))
           \<and> (0 < encoded_sentence_length (batch ! i)
                \<and> nat (encoded_sentence_length (batch ! i) - 1) < length (words_mask (batch ! i))
                \<and> words_mask (batch ! i) ! nat (encoded_sentence_length (batch ! i) - 1) \<noteq> 0 \<longrightarrow>
                \<not> (\<forall>(s, e) \<in> set (result_spans ! i). s \<le> e))))"
proof (rule conjI)
  show "\<forall>spans. get_predicted_spans model_out smp = Inr spans \<longrightarrow> (\<forall>(s, e) \<in> set spans. s \<le> e)"
    using predicted_spans_shape by fastforce
next
  show "\<forall>result_spans. construct_spans_ranges batch = Inr result_spans \<longrightarrow>
        (\<forall>i<length batch.
           result_spans ! i =
             decrement_ends
               (zip (0 # nonzero (words_mask (batch ! i))
                       @ [encoded_sentence_length (batch ! i) - 1, encoded_sentence_length (batch ! i)])
                    (nonzero (words_mask (batch ! i))
                       @ [encoded_sentence_length (batch ! i) - 1, encoded_sentence_length (batch ! i)]))
           \<and> length (result_spans ! i) = length (nonzero (words_mask (batch ! i))) + 2
           \<and> ((\<forall>(s, e) \<in> set (result_spans ! i). s \<le> e) \<longleftrightarrow>
                sorted_wrt (<)
                  (0 # nonzero (words_mask (batch ! i))
                     @ [encoded_sentence_length (batch ! i) - 1, encoded_sentence_length (batch ! i)]))
           \<and> ((\<forall>(s, e) \<in> set (result_spans ! i). s \<le> e) \<longleftrightarrow>
                2 \<le> encoded_sentence_length (batch ! i)
                \<and> (\<forall>j<length (words_mask (batch ! i)).
                      words_mask (batch ! i) ! j \<noteq> 0 \<longrightarrow>
                        0 < j \<and> int j < encoded_sentence_length (batch ! i) - 1))
           \<and> (words_mask (batch ! i) \<noteq> [] \<and> words_mask (batch ! i) ! 0 \<noteq> 0 \<longrightarrow>
                \<not> (\<forall>(s, e) \<in> set (result_spans ! i). s \<le> e))
           \<and> (0 < encoded_sentence_length (batch ! i)
                \<and> nat (encoded_sentence_length (batch ! i) - 1) < length (words_mask (batch ! i))
                \<and> words_mask (batch ! i) ! nat (encoded_sentence_length (batch ! i) - 1) \<noteq> 0 \<longrightarrow>
                \<not> (\<forall>(s, e) \<in> set (result_spans ! i). s \<le> e)))"
  proof (intro allI impI)
    fix result_spans i
    assume r: "construct_spans_ranges batch = Inr result_spans" and i: "i < length batch"
    let ?m = "words_mask (batch ! i)"
    let ?L = "encoded_sentence_length (batch ! i)"
    let ?bs = "0 # nonzero ?m @ [?L - 1, ?L]"
    let ?ok = "\<forall>(s, e) \<in> set (result_spans ! i). s \<le> e"
    have s: "sample_spans_ranges (batch ! i) = Inr (result_spans ! i)"
      using construct_spans_ranges_nth [OF r] i by simp
    note w = sample_spans_ranges_windows [OF s]
    have eq: "result_spans ! i = decrement_ends (zip ?bs (nonzero ?m @ [?L - 1, ?L]))"
      using w by blast
    have len: "length (result_spans ! i) = length (nonzero ?m) + 2"
      using w by blast
    have srt: "?ok \<longleftrightarrow> sorted_wrt (<) ?bs"
      using w by blast
    have msk: "?ok \<longleftrightarrow> 2 \<le> ?L \<and> (\<forall>j<length ?m. ?m ! j \<noteq> 0 \<longrightarrow> 0 < j \<and> int j < ?L - 1)"
      unfolding srt by (rule boundaries_strict_iff)
    have first: "?m \<noteq> [] \<and> ?m ! 0 \<noteq> 0 \<longrightarrow> \<not> ?ok"
    proof
      assume a: "?m \<noteq> [] \<and> ?m ! 0 \<noteq> 0"
      show "\<not> ?ok"
      proof
        assume ?ok
        with msk have "\<forall>j<length ?m. ?m ! j \<noteq> 0 \<longrightarrow> 0 < j \<and> int j < ?L - 1" by blast
        moreover from a have "0 < length ?m" by simp
        ultimately have "(0::nat) < 0" using a by blast
        then show False by simp
      qed
    qed
    have lastp: "0 < ?L \<and> nat (?L - 1) < length ?m \<and> ?m ! nat (?L - 1) \<noteq> 0 \<longrightarrow> \<not> ?ok"
    proof
      assume b: "0 < ?L \<and> nat (?L - 1) < length ?m \<and> ?m ! nat (?L - 1) \<noteq> 0"
      show "\<not> ?ok"
      proof
        assume ?ok
        with msk have "\<forall>j<length ?m. ?m ! j \<noteq> 0 \<longrightarrow> 0 < j \<and> int j < ?L - 1" by blast
        with b have "int (nat (?L - 1)) < ?L - 1" by blast
        then show False by arith
      qed
    qed
    from eq len srt msk first lastp
    show "result_spans ! i = decrement_ends (zip ?bs (nonzero ?m @ [?L - 1, ?L]))
           \<and> length (result_spans ! i) = length (nonzero ?m) + 2
           \<and> (?ok \<longleftrightarrow> sorted_wrt (<) ?bs)
           \<and> (?ok \<longleftrightarrow> 2 \<le> ?L \<and> (\<forall>j<length ?m. ?m ! j \<noteq> 0 \<longrightarrow> 0 < j \<and> int j < ?L - 1))
           \<and> (?m \<noteq> [] \<and> ?m ! 0 \<noteq> 0 \<longrightarrow> \<not> ?ok)
           \<and> (0 < ?L \<and> nat (?L - 1) < length ?m \<and> ?m ! nat (?L - 1) \<noteq> 0 \<longrightarrow> \<not> ?ok)"
      by (intro conjI)
  qed
qed

theorem spans_start_le_end_witness:
  "predicted_boundaries
     \<lparr>ncols = 2, rows = [[Finite 0.1, Finite 0.9], [Finite 0.8, Finite 0.2], [Finite 0.3, Finite 0.7]]\<rparr>
     \<lparr>offset = 0, encoded_sentence_length = 3, sub_words_mask = [1, 1, 1],
      words_mask = [1, 0, 1], true_spans = []\<rparr>
   = Inr [0, 0, 2, 3]
   \<and> get_predicted_spans
     \<lparr>ncols = 2, rows = [[Finite 0.1, Finite 0.9], [Finite 0.8, Finite 0.2], [Finite 0.3, Finite 0.7]]\<rparr>
     \<lparr>offset = 0, encoded_sentence_length = 3, sub_words_mask = [1, 1, 1],
      words_mask = [1, 0, 1], true_spans = []\<rparr>
   = Inr [(0, 1), (2, 2)]
   \<and> list_all (\<lambda>(s, e). s \<le> e) ([(0, 1), (2, 2)] :: span list)
   \<and> construct_spans_ranges
       [\<lparr>offset = 1, encoded_sentence_length = 4, sub_words_mask = [0, 1, 1, 0],
         words_mask = [0, 1, 1, 0], true_spans = []\<rparr>,
        \<lparr>offset = 0, encoded_sentence_length = 3, sub_words_mask = [1, 1, 1],
         words_mask = [1, 0, 1], true_spans = []\<rparr>]
     = Inr [[(0, 0), (1, 1), (2, 2), (3, 3)], [(0, - 1), (0, 1), (2, 1), (2, 2)]]
   \<and> sorted_wrt (<) [0, 1, 2, 3, 4 :: int]
   \<and> list_all (\<lambda>(s, e). s \<le> e) ([(0, 0), (1, 1), (2, 2), (3, 3)] :: span list)
   \<and> \<not> sorted_wrt (<) [0, 0, 2, 2, 3 :: int]
   \<and> \<not> list_all (\<lambda>(s, e). s \<le> e) ([(0, - 1), (0, 1), (2, 1), (2, 2)] :: span list)"
proof -
  let ?m = "\<lparr>ncols = 2, rows = [[Finite 0.1, Finite 0.9], [Finite 0.8, Finite 0.2], [Finite 0.3, Finite 0.7]]\<rparr>"
  let ?s = "\<lparr>offset = 0, encoded_sentence_length = 3, sub_words_mask = [1, 1, 1],
      words_mask = [1, 0, 1], true_spans = []\<rparr>"
  let ?g = "\<lparr>offset = 1, encoded_sentence_length = 4, sub_words_mask = [0, 1, 1, 0],
         words_mask = [0, 1, 1, 0], true_spans = []\<rparr>"
  let ?good = "[(0, 0), (1, 1), (2, 2), (3, 3)] :: span list"
  let ?bad = "[(0, - 1), (0, 1), (2, 1), (2, 2)] :: span list"
  have pb: "predicted_boundaries ?m ?s = Inr [0, 0, 2, 3]"
    by (simp add: span_eval)
  have p: "get_predicted_spans ?m ?s = Inr [(0, 1), (2, 2)]"
    by (simp add: span_eval)
  have c: "construct_spans_ranges [?g, ?s] = Inr [?good, ?bad]"
    by (simp add: ranges_eval)
  note t = spans_start_le_end [of ?m ?s "[?g, ?s]"]
  have "\<forall>(s, e) \<in> set ([(0, 1), (2, 2)] :: span list). s \<le> e"
    using t p by blast
  then have one: "list_all (\<lambda>(s, e). s \<le> e) ([(0, 1), (2, 2)] :: span list)"
    unfolding list_all_iff .
  note t2 = t [THEN conjunct2, rule_format, OF c]
  have i0: "0 < length [?g, ?s]" and i1: "1 < length [?g, ?s]" by simp_all
  have s0: "sorted_wrt (<)
              (0 # nonzero (words_mask ([?g, ?s] ! 0))
                 @ [encoded_sentence_length ([?g, ?s] ! 0) - 1, encoded_sentence_length ([?g, ?s] ! 0)])"
    by (simp add: nonzero_def upt_rec)
  with t2 [OF i0] have "\<forall>(s, e) \<in> set ([?good, ?bad] ! 0). s \<le> e" by blast
  then have "\<forall>(s, e) \<in> set ?good. s \<le> e" by simp
  then have good: "list_all (\<lambda>(s, e). s \<le> e) ?good"
    unfolding list_all_iff .
  have sg: "sorted_wrt (<) [0, 1, 2, 3, 4 :: int]"
    using s0 by (simp add: nonzero_def upt_rec)
  have h1: "words_mask ([?g, ?s] ! 1) \<noteq> [] \<and> words_mask ([?g, ?s] ! 1) ! 0 \<noteq> 0"
    by simp
  with t2 [OF i1] have nb: "\<not> (\<forall>(s, e) \<in> set ([?good, ?bad] ! 1). s \<le> e)" by blast
  then have bad: "\<not> list_all (\<lambda>(s, e). s \<le> e) ?bad"
    unfolding list_all_iff by simp
  from nb t2 [OF i1]
  have "\<not> sorted_wrt (<)
              (0 # nonzero (words_mask ([?g, ?s] ! 1))
                 @ [encoded_sentence_length ([?g, ?s] ! 1) - 1, encoded_sentence_length ([?g, ?s] ! 1)])"
    by blast
  then have sb: "\<not> sorted_wrt (<) [0, 0, 2, 2, 3 :: int]"
    by (simp add: nonzero_def upt_rec)
  from pb p one c sg good sb bad show ?thesis by (intro conjI)
qed

text \<open>
  Claim C1 as stated fails for \<open>construct_spans_ranges\<close>: on the mask \<open>[1, 1]\<close> with
  encoded sentence length 2 it returns the degenerate spans \<open>(0, -1)\<close> and \<open>(1, 0)\<close>.
\<close>

theorem spans_start_le_end_counterexample:
  "construct_spans_ranges
     [\<lparr>offset = 0, encoded_sentence_length = 2, sub_words_mask = [1, 1],
       words_mask = [1, 1], true_spans = []\<rparr>]
   = Inr [[(0, - 1), (0, 0), (1, 0), (1, 1)]]
   \<and> \<not> list_all (\<lambda>(s, e). s \<le> e) ([(0, - 1), (0, 0), (1, 0), (1, 1)] :: span list)"
  by (simp add: ranges_eval)

text \<open>
  Claim C2, as amended. For a mask of length 6 whose true entries are exactly at
  positions 0, 3 and 5 and an encoded sentence length of 6,
  \<open>TransformerWithAggregation.construct_spans_ranges\<close> returns
  \<open>[(0,-1),(0,2),(3,4),(5,4),(5,5)]\<close>: the three spans \<open>(0,2),(3,4),(5,5)\<close> together with
  the degenerate \<open>(0,-1)\<close> and \<open>(5,4)\<close>. \<open>Trainer._get_predicted_spans\<close> with offset 0
  returns exactly \<open>[(0,2),(3,4),(5,5)]\<close> when the masked split array has length 6 and is
  true exactly at positions 0, 3 and 5.
\<close>

theorem round_trip_0_3_5:
  "(map (\<lambda>m. m \<noteq> 0) (words_mask smp) = [True, False, False, True, False, True]
      \<and> encoded_sentence_length smp = 6 \<longrightarrow>
    construct_spans_ranges [smp] = Inr [[(0, - 1), (0, 2), (3, 4), (5, 4), (5, 5)]])
   \<and> (masked_predictions model_out smp' = Inr ps
        \<and> map (\<lambda>m. m \<noteq> 0) ps = [True, False, False, True, False, True]
        \<and> offset smp' = 0 \<longrightarrow>
      get_predicted_spans model_out smp' = Inr [(0, 2), (3, 4), (5, 5)])"
proof (rule conjI)
  show "map (\<lambda>m. m \<noteq> 0) (words_mask smp) = [True, False, False, True, False, True]
      \<and> encoded_sentence_length smp = 6 \<longrightarrow>
    construct_spans_ranges [smp] = Inr [[(0, - 1), (0, 2), (3, 4), (5, 4), (5, 5)]]"
  proof
    assume a: "map (\<lambda>m. m \<noteq> 0) (words_mask smp) = [True, False, False, True, False, True]
      \<and> encoded_sentence_length smp = 6"
    then have "nonzero (words_mask smp) = [0, 3, 5]" by (simp add: nonzero_0_3_5)
    with a have "sample_spans_ranges smp = Inr [(0, - 1), (0, 2), (3, 4), (5, 4), (5, 5)]"
      by (simp add: sample_spans_ranges_eq decrement_ends_def)
    then show "construct_spans_ranges [smp] = Inr [[(0, - 1), (0, 2), (3, 4), (5, 4), (5, 5)]]"
      by simp
  qed
next
  show "masked_predictions model_out smp' = Inr ps
        \<and> map (\<lambda>m. m \<noteq> 0) ps = [True, False, False, True, False, True]
        \<and> offset smp' = 0 \<longrightarrow>
      get_predicted_spans model_out smp' = Inr [(0, 2), (3, 4), (5, 5)]"
  proof
    assume a: "masked_predictions model_out smp' = Inr ps
        \<and> map (\<lambda>m. m \<noteq> 0) ps = [True, False, False, True, False, True]
        \<and> offset smp' = 0"
    then have nz: "nonzero ps = [0, 3, 5]" by (simp add: nonzero_0_3_5)
    have "length (map (\<lambda>m. m \<noteq> 0) ps) = 6" using a by simp
    then have len: "length ps = 6" by simp
    show "get_predicted_spans model_out smp' = Inr [(0, 2), (3, 4), (5, 5)]"
      using a nz len
      by (simp add: get_predicted_spans_masked decrement_ends_def delete_degenerate_def)
  qed
qed

theorem round_trip_0_3_5_witness:
  "construct_spans_ranges
     [\<lparr>offset = 0, encoded_sentence_length = 6, sub_words_mask = [1, 0, 0, 1, 0, 1],
       words_mask = [1, 0, 0, 1, 0, 1], true_spans = []\<rparr>]
   = Inr [[(0, - 1), (0, 2), (3, 4), (5, 4), (5, 5)]]
   \<and> masked_predictions
       \<lparr>ncols = 2, rows = [[Finite 0.1, Finite 0.9], [Finite 0.2, Finite 0.8], [Finite 1, Finite 0],
                           [Finite 0.5, Finite 0.5], [Finite 0.3, Finite 0.7], [Finite 0, Finite 1]]\<rparr>
       \<lparr>offset = 0, encoded_sentence_length = 6, sub_words_mask = [1, 0, 0, 1, 0, 1],
        words_mask = [1, 0, 0, 1, 0, 1], true_spans = []\<rparr>
     = Inr [1, 0, 0, 1, 0, 1]
   \<and> get_predicted_spans
       \<lparr>ncols = 2, rows = [[Finite 0.1, Finite 0.9], [Finite 0.2, Finite 0.8], [Finite 1, Finite 0],
                           [Finite 0.5, Finite 0.5], [Finite 0.3, Finite 0.7], [Finite 0, Finite 1]]\<rparr>
       \<lparr>offset = 0, encoded_sentence_length = 6, sub_words_mask = [1, 0, 0, 1, 0, 1],
        words_mask = [1, 0, 0, 1, 0, 1], true_spans = []\<rparr>
     = Inr [(0, 2), (3, 4), (5, 5)]"
proof -
  let ?m = "\<lparr>ncols = 2, rows = [[Finite 0.1, Finite 0.9], [Finite 0.2, Finite 0.8], [Finite 1, Finite 0],
                           [Finite 0.5, Finite 0.5], [Finite 0.3, Finite 0.7], [Finite 0, Finite 1]]\<rparr>"
  let ?s = "\<lparr>offset = 0, encoded_sentence_length = 6, sub_words_mask = [1, 0, 0, 1, 0, 1],
        words_mask = [1, 0, 0, 1, 0, 1], true_spans = []\<rparr>"
  note t = round_trip_0_3_5 [of ?s ?m ?s "[1, 0, 0, 1, 0, 1]"]
  have h1: "map (\<lambda>m. m \<noteq> 0) (words_mask ?s) = [True, False, False, True, False, True]
      \<and> encoded_sentence_length ?s = 6"
    by simp
  have mp: "masked_predictions ?m ?s = Inr [1, 0, 0, 1, 0, 1]"
    by (simp add: span_eval)
  have h2: "masked_predictions ?m ?s = Inr [1, 0, 0, 1, 0, 1]
        \<and> map (\<lambda>m. m \<noteq> 0) [1, 0, 0, 1, 0, 1 :: int] = [True, False, False, True, False, True]
        \<and> offset ?s = 0"
    using mp by simp
  from t h1 have c: "construct_spans_ranges [?s] = Inr [[(0, - 1), (0, 2), (3, 4), (5, 4), (5, 5)]]"
    by blast
  from t h2 have g: "get_predicted_spans ?m ?s = Inr [(0, 2), (3, 4), (5, 5)]"
    by blast
  from c mp g show ?thesis by blast
qed

text \<open>
  Claim C2 as stated fails for \<open>construct_spans_ranges\<close>: on the mask true exactly at
  0, 3 and 5 it returns five spans, not the three of the claim.
\<close>

theorem round_trip_0_3_5_counterexample:
  "construct_spans_ranges
     [\<lparr>offset = 0, encoded_sentence_length = 6, sub_words_mask = [1, 0, 0, 1, 0, 1],
       words_mask = [1, 0, 0, 1, 0, 1], true_spans = []\<rparr>]
   \<noteq> Inr [[(0, 2), (3, 4), (5, 5)]]"
  by (simp add: ranges_eval)

text \<open>
  Claim C3, as amended. The boundary sequence that \<open>Trainer._get_predicted_spans\<close> hands to
  the sliding window starts with the sample's offset, continues with the positions where
  the masked split array is nonzero, and ends with the length of the truncated split
  array minus the offset. For a score array and a mask of the same length that is at
  least the encoded sentence length \<open>N \<ge> 0\<close>, that last element is \<open>N - offset\<close>; it is
  \<open>N\<close> only when the offset is 0.
\<close>

theorem predicted_boundaries_sentinels:
  "(\<forall>bs. predicted_boundaries model_out smp = Inr bs \<longrightarrow>
      (\<exists>ps. masked_predictions model_out smp = Inr ps
         \<and> bs = offset smp # nonzero ps @ [int (length ps) - offset smp]))
   \<and> (2 \<le> ncols model_out \<and> length (sub_words_mask smp) = length (rows model_out)
        \<and> 0 \<le> encoded_sentence_length smp
        \<and> encoded_sentence_length smp \<le> int (length (rows model_out)) \<longrightarrow>
      (\<exists>ps. masked_predictions model_out smp = Inr ps
         \<and> int (length ps) = encoded_sentence_length smp
         \<and> predicted_boundaries model_out smp =
             Inr (offset smp # nonzero ps @ [encoded_sentence_length smp - offset smp])))"
proof (rule conjI)
  show "\<forall>bs. predicted_boundaries model_out smp = Inr bs \<longrightarrow>
      (\<exists>ps. masked_predictions model_out smp = Inr ps
         \<and> bs = offset smp # nonzero ps @ [int (length ps) - offset smp])"
    by (auto simp: predicted_boundaries_def pad_boundaries_def split: sum.splits)
next
  show "2 \<le> ncols model_out \<and> length (sub_words_mask smp) = length (rows model_out)
        \<and> 0 \<le> encoded_sentence_length smp
        \<and> encoded_sentence_length smp \<le> int (length (rows model_out)) \<longrightarrow>
      (\<exists>ps. masked_predictions model_out smp = Inr ps
         \<and> int (length ps) = encoded_sentence_length smp
         \<and> predicted_boundaries model_out smp =
             Inr (offset smp # nonzero ps @ [encoded_sentence_length smp - offset smp]))"
  proof
    let ?N = "encoded_sentence_length smp"
    assume a: "2 \<le> ncols model_out \<and> length (sub_words_mask smp) = length (rows model_out)
        \<and> 0 \<le> ?N \<and> ?N \<le> int (length (rows model_out))"
    let ?ps = "map (\<lambda>(m, x). if m \<noteq> 0 then x else NOT_SPLIT)
               (zip (py_take ?N (sub_words_mask smp))
                    (py_take ?N (map (\<lambda>r. if ge_half (r ! 1) then 1 else 0) (rows model_out))))"
    have mp: "masked_predictions model_out smp = Inr ?ps"
      using a by (simp add: masked_predictions_same_length)
    have l1: "int (length (py_take ?N (sub_words_mask smp))) = ?N"
      using a by (simp add: py_take_length_nonneg)
    have l2: "int (length (py_take ?N
                (map (\<lambda>r. if ge_half (r ! 1) then 1 else 0 :: int) (rows model_out)))) = ?N"
      using a by (simp add: py_take_length_nonneg)
    have len: "int (length ?ps) = ?N"
      using l1 l2 by simp
    have "predicted_boundaries model_out smp = Inr (offset smp # nonzero ?ps @ [?N - offset smp])"
      unfolding predicted_boundaries_def mp pad_boundaries_def using len by simp
    with mp len show "\<exists>ps. masked_predictions model_out smp = Inr ps
         \<and> int (length ps) = ?N
         \<and> predicted_boundaries model_out smp = Inr (offset smp # nonzero ps @ [?N - offset smp])"
      by blast
  qed
qed

theorem predicted_boundaries_sentinels_witness:
  "predicted_boundaries
     \<lparr>ncols = 2, rows = [[Finite 0.9, Finite 0.1], [Finite 0.2, Finite 0.8], [Finite 0.3, Finite 0.7],
                         [Finite 0.6, Finite 0.4], [Finite 0.9, Finite 0.1]]\<rparr>
     \<lparr>offset = 1, encoded_sentence_length = 4, sub_words_mask = [0, 1, 0, 1, 0],
      words_mask = [0, 1, 0, 1, 0], true_spans = []\<rparr>
   = Inr [1, 1, 3]
   \<and> masked_predictions
     \<lparr>ncols = 2, rows = [[Finite 0.9, Finite 0.1], [Finite 0.2, Finite 0.8], [Finite 0.3, Finite 0.7],
                         [Finite 0.6, Finite 0.4], [Finite 0.9, Finite 0.1]]\<rparr>
     \<lparr>offset = 1, encoded_sentence_length = 4, sub_words_mask = [0, 1, 0, 1, 0],
      words_mask = [0, 1, 0, 1, 0], true_spans = []\<rparr>
   = Inr [0, 1, 0, 0]
   \<and> [1, 1, 3] = 1 # nonzero [0, 1, 0, 0] @ [int (length [0, 1, 0, 0 :: int]) - 1]"
proof -
  let ?m = "\<lparr>ncols = 2, rows = [[Finite 0.9, Finite 0.1], [Finite 0.2, Finite 0.8], [Finite 0.3, Finite 0.7],
                         [Finite 0.6, Finite 0.4], [Finite 0.9, Finite 0.1]]\<rparr>"
  let ?s = "\<lparr>offset = 1, encoded_sentence_length = 4, sub_words_mask = [0, 1, 0, 1, 0],
      words_mask = [0, 1, 0, 1, 0], true_spans = []\<rparr>"
  note t = predicted_boundaries_sentinels [of ?m ?s]
  have h: "2 \<le> ncols ?m \<and> length (sub_words_mask ?s) = length (rows ?m)
        \<and> 0 \<le> encoded_sentence_length ?s
        \<and> encoded_sentence_length ?s \<le> int (length (rows ?m))"
    by simp
  have mp: "masked_predictions ?m ?s = Inr [0, 1, 0, 0]"
    by (simp add: span_eval)
  from t h obtain ps where ps: "masked_predictions ?m ?s = Inr ps"
    and b: "predicted_boundaries ?m ?s = Inr (offset ?s # nonzero ps @ [encoded_sentence_length ?s - offset ?s])"
    by blast
  from ps mp have e: "ps = [0, 1, 0, 0]" by simp
  have pb: "predicted_boundaries ?m ?s = Inr [1, 1, 3]"
    using b unfolding e by (simp add: nonzero_def upt_rec)
  from t pb obtain ps' where "masked_predictions ?m ?s = Inr ps'"
    and "[1, 1, 3] = offset ?s # nonzero ps' @ [int (length ps') - offset ?s]"
    by blast
  with mp have "[1, 1, 3] = 1 # nonzero [0, 1, 0, 0] @ [int (length [0, 1, 0, 0 :: int]) - 1]"
    by simp
  with pb mp show ?thesis by blast
qed

text \<open>
  Claim C3 as stated fails when the offset is not 0: with offset 1 and encoded sentence
  length 4 the boundary sequence ends with 3, not with 4.
\<close>

theorem predicted_boundaries_sentinels_counterexample:
  "predicted_boundaries
     \<lparr>ncols = 2, rows = [[Finite 0.9, Finite 0.1], [Finite 0.8, Finite 0.2], [Finite 0.7, Finite 0.3],
                         [Finite 0.6, Finite 0.4]]\<rparr>
     \<lparr>offset = 1, encoded_sentence_length = 4, sub_words_mask = [1, 1, 1, 1],
      words_mask = [1, 1, 1, 1], true_spans = []\<rparr>
   = Inr [1, 3]
   \<and> last [1, 3] \<noteq> (4 :: int)"
  by (simp add: span_eval)

text \<open>
  Claim C5. Two score arrays of the same shape, with one row per entry of the sub-word mask,
  that agree on every row where the mask is true give the same result of
  \<open>Trainer._get_predicted_spans\<close>, whatever their rows at the other positions are; and
  every split position in the boundary sequence is a position where the mask is true.
\<close>

theorem masked_scores_irrelevant:
  assumes "ncols model_out = ncols model_out'"
    and "length (rows model_out) = length (rows model_out')"
    and "length (sub_words_mask smp) = length (rows model_out)"
    and "\<forall>i<length (rows model_out).
           sub_words_mask smp ! i \<noteq> 0 \<longrightarrow> rows model_out ! i = rows model_out' ! i"
  shows "get_predicted_spans model_out smp = get_predicted_spans model_out' smp
         \<and> (\<forall>bs. predicted_boundaries model_out smp = Inr bs \<longrightarrow>
               (\<forall>b \<in> set (butlast (tl bs)). sub_words_mask smp ! nat b \<noteq> 0))"
proof (rule conjI)
  show "get_predicted_spans model_out smp = get_predicted_spans model_out' smp"
    unfolding get_predicted_spans_masked masked_predictions_agree [OF assms] ..
next
  show "\<forall>bs. predicted_boundaries model_out smp = Inr bs \<longrightarrow>
               (\<forall>b \<in> set (butlast (tl bs)). sub_words_mask smp ! nat b \<noteq> 0)"
  proof (intro allI impI ballI)
    fix bs b
    assume bs: "predicted_boundaries model_out smp = Inr bs" and b: "b \<in> set (butlast (tl bs))"
    from bs obtain ps where ps: "masked_predictions model_out smp = Inr ps"
      and e: "bs = offset smp # nonzero ps @ [int (length ps) - offset smp]"
      by (auto simp: predicted_boundaries_def pad_boundaries_def split: sum.splits)
    from b e have "b \<in> set (nonzero ps)" by simp
    from masked_predictions_nonzero_mask [OF ps assms(3) this]
    show "sub_words_mask smp ! nat b \<noteq> 0" by simp
  qed
qed

theorem masked_scores_irrelevant_witness:
  "get_predicted_spans
     \<lparr>ncols = 2, rows = [[Finite 0.1, Finite 0.9], [Finite 0.2, Finite 0.8], [Finite 0.7, Finite 0.3],
                         [Finite 0.4, Finite 0.6]]\<rparr>
     \<lparr>offset = 0, encoded_sentence_length = 4, sub_words_mask = [1, 0, 1, 1],
      words_mask = [1, 0, 1, 1], true_spans = []\<rparr>
   = get_predicted_spans
     \<lparr>ncols = 2, rows = [[Finite 0.1, Finite 0.9], [Finite 0.9, Finite 0.1], [Finite 0.7, Finite 0.3],
                         [Finite 0.4, Finite 0.6]]\<rparr>
     \<lparr>offset = 0, encoded_sentence_length = 4, sub_words_mask = [1, 0, 1, 1],
      words_mask = [1, 0, 1, 1], true_spans = []\<rparr>
   \<and> predicted_boundaries
     \<lparr>ncols = 2, rows = [[Finite 0.1, Finite 0.9], [Finite 0.2, Finite 0.8], [Finite 0.7, Finite 0.3],
                         [Finite 0.4, Finite 0.6]]\<rparr>
     \<lparr>offset = 0, encoded_sentence_length = 4, sub_words_mask = [1, 0, 1, 1],
      words_mask = [1, 0, 1, 1], true_spans = []\<rparr>
   = Inr [0, 0, 3, 4]
   \<and> list_all (\<lambda>b. [1, 0, 1, 1 :: int] ! nat b \<noteq> 0) (butlast (tl [0, 0, 3, 4]))"
proof -
  let ?m = "\<lparr>ncols = 2, rows = [[Finite 0.1, Finite 0.9], [Finite 0.2, Finite 0.8], [Finite 0.7, Finite 0.3],
                         [Finite 0.4, Finite 0.6]]\<rparr>"
  let ?m' = "\<lparr>ncols = 2, rows = [[Finite 0.1, Finite 0.9], [Finite 0.9, Finite 0.1], [Finite 0.7, Finite 0.3],
                         [Finite 0.4, Finite 0.6]]\<rparr>"
  let ?s = "\<lparr>offset = 0, encoded_sentence_length = 4, sub_words_mask = [1, 0, 1, 1],
      words_mask = [1, 0, 1, 1], true_spans = []\<rparr>"
  have h1: "ncols ?m = ncols ?m'" by simp
  have h2: "length (rows ?m) = length (rows ?m')" by simp
  have h3: "length (sub_words_mask ?s) = length (rows ?m)" by simp
  have h4: "\<forall>i<length (rows ?m). sub_words_mask ?s ! i \<noteq> 0 \<longrightarrow> rows ?m ! i = rows ?m' ! i"
    by (simp add: nth_Cons' All_less_Suc numeral_eq_Suc)
  note t = masked_scores_irrelevant [OF h1 h2 h3 h4]
  have pb: "predicted_boundaries ?m ?s = Inr [0, 0, 3, 4]"
    by (simp add: span_eval)
  from t pb have "\<forall>b \<in> set (butlast (tl [0, 0, 3, 4])). sub_words_mask ?s ! nat b \<noteq> 0"
    by blast
  then have "list_all (\<lambda>b. [1, 0, 1, 1 :: int] ! nat b \<noteq> 0) (butlast (tl [0, 0, 3, 4]))"
    unfolding list_all_iff by simp
  with t pb show ?thesis by blast
qed

text \<open>
  Claim C6. \<open>Trainer._count_intersection\<close> returns the number of distinct predicted spans
  that are equal, in both components, to some reference span; a span that only overlaps a
  reference span is not counted. For predicted \<open>(0,2),(3,4)\<close> and reference
  \<open>(0,2),(3,4),(6,7)\<close> the count is 2, and an evaluation over that one sample returns the
  ratio 2/3 (and logs 2 extracted spans).
\<close>

theorem count_intersection_exact:
  "count_intersection reference_spans predicted_spans =
     int (card {p. p \<in> set predicted_spans
                 \<and> (\<exists>t. t \<in> set reference_spans \<and> fst p = fst t \<and> snd p = snd t)})
   \<and> count_intersection [(0, 2), (3, 4), (6, 7)] [(0, 2), (3, 4)] = 2
   \<and> count_intersection [(0, 2), (3, 4), (6, 7)] [(0, 1), (3, 4), (5, 7)] = 1
   \<and> check_coverage_detected_spans
        (\<lambda>smp. \<lparr>ncols = 2, rows = [[Finite 0.9, Finite 0.1], [Finite 0.8, Finite 0.2],
                                    [Finite 0.7, Finite 0.3], [Finite 0.4, Finite 0.6],
                                    [Finite 0.9, Finite 0.1]]\<rparr>)
        [[\<lparr>offset = 0, encoded_sentence_length = 5, sub_words_mask = [1, 1, 1, 1, 1],
           words_mask = [1, 1, 1, 1, 1], true_spans = [(0, 2), (3, 4), (6, 7)]\<rparr>]]
      = Inr (2 / 3, 2)"
proof (intro conjI)
  have "set predicted_spans \<inter> set reference_spans =
        {p. p \<in> set predicted_spans
            \<and> (\<exists>t. t \<in> set reference_spans \<and> fst p = fst t \<and> snd p = snd t)}"
    by (auto simp: prod_eq_iff)
  then show "count_intersection reference_spans predicted_spans =
     int (card {p. p \<in> set predicted_spans
                 \<and> (\<exists>t. t \<in> set reference_spans \<and> fst p = fst t \<and> snd p = snd t)})"
    by (simp add: count_intersection_def)
next
  show "count_intersection [(0, 2), (3, 4), (6, 7)] [(0, 2), (3, 4)] = 2"
    by (simp add: count_intersection_def)
next
  show "count_intersection [(0, 2), (3, 4), (6, 7)] [(0, 1), (3, 4), (5, 7)] = 1"
    by (simp add: count_intersection_def)
next
  let ?m = "\<lparr>ncols = 2, rows = [[Finite 0.9, Finite 0.1], [Finite 0.8, Finite 0.2],
                                    [Finite 0.7, Finite 0.3], [Finite 0.4, Finite 0.6],
                                    [Finite 0.9, Finite 0.1]]\<rparr>"
  let ?s = "\<lparr>offset = 0, encoded_sentence_length = 5, sub_words_mask = [1, 1, 1, 1, 1],
           words_mask = [1, 1, 1, 1, 1], true_spans = [(0, 2), (3, 4), (6, 7)]\<rparr>"
  have g: "get_predicted_spans ?m ?s = Inr [(0, 2), (3, 4)]"
    by (simp add: span_eval)
  show "check_coverage_detected_spans (\<lambda>smp. ?m) [[?s]] = Inr (2 / 3, 2)"
    by (simp only: check_coverage_detected_spans_def coverage_counters_def coverage_step_def
        for_each.simps g sum.case)
      (simp add: count_intersection_def)
qed

text \<open>
  Claim C7. When the evaluated data has no reference span at all,
  \<open>Trainer.check_coverage_detected_spans\<close> never returns a ratio: it raises. The exception
  is the division by zero whenever every sample could be decoded (otherwise the decoder's
  exception ends the loop first).
\<close>

theorem check_coverage_no_reference:
  assumes "sum_list (map (\<lambda>smp. length (true_spans smp)) (concat data)) = 0"
  shows "(\<forall>r. check_coverage_detected_spans predict data \<noteq> Inr r)
         \<and> ((\<forall>smp \<in> set (concat data). \<exists>sp. get_predicted_spans (predict smp) smp = Inr sp) \<longrightarrow>
              check_coverage_detected_spans predict data = Inl ZeroDivisionError)"
proof (rule conjI)
  show "\<forall>r. check_coverage_detected_spans predict data \<noteq> Inr r"
  proof (cases "coverage_counters predict data")
    case (Inl e)
    then show ?thesis by (simp add: check_coverage_detected_spans_def)
  next
    case (Inr c)
    from coverage_counters_final [OF Inr] assms have "true_num c = 0" by simp
    with Inr show ?thesis by (simp add: check_coverage_detected_spans_def)
  qed
next
  show "(\<forall>smp \<in> set (concat data). \<exists>sp. get_predicted_spans (predict smp) smp = Inr sp) \<longrightarrow>
              check_coverage_detected_spans predict data = Inl ZeroDivisionError"
  proof
    assume "\<forall>smp \<in> set (concat data). \<exists>sp. get_predicted_spans (predict smp) smp = Inr sp"
    then obtain c where c: "coverage_counters predict data = Inr c"
      unfolding coverage_counters_concat using coverage_loop_total by blast
    from coverage_counters_final [OF c] assms have "true_num c = 0" by simp
    with c show "check_coverage_detected_spans predict data = Inl ZeroDivisionError"
      by (simp add: check_coverage_detected_spans_def)
  qed
qed

theorem check_coverage_no_reference_witness:
  "sum_list (map (\<lambda>smp. length (true_spans smp))
      (concat [[\<lparr>offset = 0, encoded_sentence_length = 2, sub_words_mask = [1, 1],
                 words_mask = [1, 1], true_spans = []\<rparr>], []])) = 0
   \<and> check_coverage_detected_spans
        (\<lambda>smp. \<lparr>ncols = 2, rows = [[Finite 0.9, Finite 0.1], [Finite 0.2, Finite 0.8]]\<rparr>)
        [[\<lparr>offset = 0, encoded_sentence_length = 2, sub_words_mask = [1, 1],
           words_mask = [1, 1], true_spans = []\<rparr>], []]
      = Inl ZeroDivisionError"
proof -
  let ?m = "\<lparr>ncols = 2, rows = [[Finite 0.9, Finite 0.1], [Finite 0.2, Finite 0.8]]\<rparr>"
  let ?s = "\<lparr>offset = 0, encoded_sentence_length = 2, sub_words_mask = [1, 1],
           words_mask = [1, 1], true_spans = []\<rparr>"
  have h: "sum_list (map (\<lambda>smp. length (true_spans smp)) (concat [[?s], []])) = 0"
    by simp
  have g: "get_predicted_spans ?m ?s = Inr [(0, 0), (1, 1)]"
    by (simp add: span_eval)
  then have d: "\<forall>smp \<in> set (concat [[?s], []]). \<exists>sp. get_predicted_spans ((\<lambda>smp. ?m) smp) smp = Inr sp"
    by simp
  from check_coverage_no_reference [OF h, of "\<lambda>smp. ?m"] d
  have "check_coverage_detected_spans (\<lambda>smp. ?m) [[?s], []] = Inl ZeroDivisionError"
    by blast
  with h show ?thesis by (rule conjI)
qed

text \<open>
  Claim C8. When \<open>Trainer.check_coverage_detected_spans\<close> returns, the ratio lies in
  \<open>[0, 1]\<close> and the logged number of extracted spans is not negative: the counters it
  divides satisfy \<open>0 \<le> num_correct_predicted \<le> true_num\<close> with \<open>true_num \<noteq> 0\<close>. It
  does return when every sample can be decoded and there is at least one reference span.
\<close>

theorem coverage_ratio_bounds:
  "(\<forall>ratio extracted. check_coverage_detected_spans predict data = Inr (ratio, extracted) \<longrightarrow>
      0 \<le> ratio \<and> ratio \<le> 1 \<and> 0 \<le> extracted
      \<and> (\<exists>c. coverage_counters predict data = Inr c \<and> true_num c \<noteq> 0
            \<and> 0 \<le> num_correct_predicted c \<and> num_correct_predicted c \<le> true_num c
            \<and> ratio = real_of_int (num_correct_predicted c) / real_of_int (true_num c)
            \<and> extracted = num_predicted c))
   \<and> ((\<forall>smp \<in> set (concat data). \<exists>sp. get_predicted_spans (predict smp) smp = Inr sp)
        \<and> sum_list (map (\<lambda>smp. length (true_spans smp)) (concat data)) \<noteq> 0 \<longrightarrow>
      (\<exists>r. check_coverage_detected_spans predict data = Inr r))"
proof (rule conjI)
  show "\<forall>ratio extracted. check_coverage_detected_spans predict data = Inr (ratio, extracted) \<longrightarrow>
      0 \<le> ratio \<and> ratio \<le> 1 \<and> 0 \<le> extracted
      \<and> (\<exists>c. coverage_counters predict data = Inr c \<and> true_num c \<noteq> 0
            \<and> 0 \<le> num_correct_predicted c \<and> num_correct_predicted c \<le> true_num c
            \<and> ratio = real_of_int (num_correct_predicted c) / real_of_int (true_num c)
            \<and> extracted = num_predicted c)"
  proof (intro allI impI)
    fix ratio extracted
    assume r: "check_coverage_detected_spans predict data = Inr (ratio, extracted)"
    then obtain c where c: "coverage_counters predict data = Inr c" and nz: "true_num c \<noteq> 0"
      and ratio: "ratio = real_of_int (num_correct_predicted c) / real_of_int (true_num c)"
      and ex: "extracted = num_predicted c"
      by (auto simp: check_coverage_detected_spans_def split: sum.splits if_splits)
    from coverage_counters_final [OF c]
    have b: "0 \<le> num_predicted c" "0 \<le> num_correct_predicted c"
      "num_correct_predicted c \<le> true_num c" "0 \<le> true_num c"
      by simp_all
    with nz have pos: "0 < true_num c" by simp
    have "0 \<le> ratio" unfolding ratio using b(2) pos by simp
    moreover have "ratio \<le> 1" unfolding ratio using b(3) pos by simp
    moreover have "0 \<le> extracted" using ex b(1) by simp
    ultimately show "0 \<le> ratio \<and> ratio \<le> 1 \<and> 0 \<le> extracted
      \<and> (\<exists>c. coverage_counters predict data = Inr c \<and> true_num c \<noteq> 0
            \<and> 0 \<le> num_correct_predicted c \<and> num_correct_predicted c \<le> true_num c
            \<and> ratio = real_of_int (num_correct_predicted c) / real_of_int (true_num c)
            \<and> extracted = num_predicted c)"
      using c nz b ratio ex by blast
  qed
next
  show "(\<forall>smp \<in> set (concat data). \<exists>sp. get_predicted_spans (predict smp) smp = Inr sp)
        \<and> sum_list (map (\<lambda>smp. length (true_spans smp)) (concat data)) \<noteq> 0 \<longrightarrow>
      (\<exists>r. check_coverage_detected_spans predict data = Inr r)"
  proof
    assume a: "(\<forall>smp \<in> set (concat data). \<exists>sp. get_predicted_spans (predict smp) smp = Inr sp)
        \<and> sum_list (map (\<lambda>smp. length (true_spans smp)) (concat data)) \<noteq> 0"
    then obtain c where c: "coverage_counters predict data = Inr c"
      unfolding coverage_counters_concat using coverage_loop_total by blast
    from coverage_counters_final [OF c] a have "true_num c \<noteq> 0" by simp
    with c show "\<exists>r. check_coverage_detected_spans predict data = Inr r"
      by (simp add: check_coverage_detected_spans_def)
  qed
qed

theorem coverage_ratio_bounds_witness:
  "check_coverage_detected_spans
        (\<lambda>smp. \<lparr>ncols = 2, rows = [[Finite 0.9, Finite 0.1], [Finite 0.2, Finite 0.8],
                                    [Finite 0.7, Finite 0.3]]\<rparr>)
        [[\<lparr>offset = 0, encoded_sentence_length = 3, sub_words_mask = [1, 1, 1],
           words_mask = [1, 1, 1], true_spans = [(0, 0), (1, 1), (2, 2), (0, 2)]\<rparr>]]
      = Inr (1 / 4, 2)
   \<and> (0 :: real) \<le> 1 / 4 \<and> (1 / 4 :: real) \<le> 1 \<and> (0 :: int) \<le> 2"
proof -
  let ?m = "\<lparr>ncols = 2, rows = [[Finite 0.9, Finite 0.1], [Finite 0.2, Finite 0.8],
                                    [Finite 0.7, Finite 0.3]]\<rparr>"
  let ?s = "\<lparr>offset = 0, encoded_sentence_length = 3, sub_words_mask = [1, 1, 1],
           words_mask = [1, 1, 1], true_spans = [(0, 0), (1, 1), (2, 2), (0, 2)]\<rparr>"
  have g: "get_predicted_spans ?m ?s = Inr [(0, 0), (1, 2)]"
    by (simp add: span_eval)
  have r: "check_coverage_detected_spans (\<lambda>smp. ?m) [[?s]] = Inr (1 / 4, 2)"
    by (simp only: check_coverage_detected_spans_def coverage_counters_def coverage_step_def
        for_each.simps g sum.case)
      (simp add: count_intersection_def)
  from coverage_ratio_bounds [of "\<lambda>smp. ?m" "[[?s]]"] r
  have "(0 :: real) \<le> 1 / 4 \<and> (1 / 4 :: real) \<le> 1 \<and> (0 :: int) \<le> 2"
    by blast
  with r show ?thesis by (rule conjI)
qed

text \<open>
  Claim C10. For a score tensor with at least one class and one sub-word-mask entry per
  row, \<open>Trainer._model_out_for_metrics\<close> returns a tensor of the same shape whose row at a
  position where the mask is true is the row of \<open>model_out\<close>, and whose row at a position
  where the mask is false is the vector with 1 at index \<open>ChunkCode.NOT_SPLIT\<close> and 0 at
  every other class index.
\<close>

theorem model_out_for_metrics_frame:
  assumes "wf_array2 model_out" and "0 < ncols model_out"
    and "length sub_mask = length (rows model_out)"
  shows "\<exists>out. model_out_for_metrics model_out sub_mask = Inr out
           \<and> ncols out = ncols model_out
           \<and> length (rows out) = length (rows model_out)
           \<and> wf_array2 out
           \<and> (\<forall>i<length (rows model_out).
                 (sub_mask ! i \<noteq> 0 \<longrightarrow> rows out ! i = rows model_out ! i)
                 \<and> (sub_mask ! i = 0 \<longrightarrow>
                      length (rows out ! i) = ncols model_out
                      \<and> (\<forall>j<ncols model_out.
                            rows out ! i ! j = (if int j = NOT_SPLIT then Finite 1 else Finite 0))))"
proof -
  let ?n = "ncols model_out"
  let ?fill = "(replicate ?n (Finite 0))[0 := Finite 1]"
  let ?row = "\<lambda>(m, r). map2 (\<lambda>x f. if m \<noteq> (0::int) then x else f) r ?fill"
  let ?out = "\<lparr>ncols = ?n, rows = map ?row (zip sub_mask (rows model_out))\<rparr>"
  have fl: "length ?fill = ?n" by simp
  have rl: "\<And>i. i < length (rows model_out) \<Longrightarrow> length (rows model_out ! i) = ?n"
    using assms(1) by (simp add: wf_array2_def list_all_length)
  have res: "model_out_for_metrics model_out sub_mask = Inr ?out"
    using assms(2,3) by (simp add: model_out_for_metrics_def fill_value_pos broadcast2_def)
  have len: "length (rows ?out) = length (rows model_out)"
    using assms(3) by simp
  have nth: "\<And>i. i < length (rows model_out) \<Longrightarrow>
      rows ?out ! i = map2 (\<lambda>x f. if sub_mask ! i \<noteq> 0 then x else f) (rows model_out ! i) ?fill"
    using assms(3) by simp
  have t: "\<And>i. i < length (rows model_out) \<Longrightarrow> sub_mask ! i \<noteq> 0 \<Longrightarrow>
      rows ?out ! i = rows model_out ! i"
    using nth rl fl where_row_true by metis
  have f: "\<And>i. i < length (rows model_out) \<Longrightarrow> sub_mask ! i = 0 \<Longrightarrow> rows ?out ! i = ?fill"
  proof -
    fix i assume i: "i < length (rows model_out)" and z: "sub_mask ! i = 0"
    have "rows ?out ! i = map2 (\<lambda>x f. if (0::int) \<noteq> 0 then x else f) (rows model_out ! i) ?fill"
      using nth [OF i] z by simp
    also have "\<dots> = ?fill"
      by (rule where_row_false) (simp add: rl [OF i])
    finally show "rows ?out ! i = ?fill" .
  qed
  have fillj: "\<And>j. j < ?n \<Longrightarrow> ?fill ! j = (if int j = NOT_SPLIT then Finite 1 else Finite 0)"
    by (simp add: NOT_SPLIT_def nth_list_update)
  have wf: "wf_array2 ?out"
    unfolding wf_array2_def list_all_length
  proof (intro allI impI)
    fix i assume "i < length (rows ?out)"
    then have i: "i < length (rows model_out)" using len by simp
    show "length (rows ?out ! i) = ncols ?out"
    proof (cases "sub_mask ! i = 0")
      case True
      with f [OF i] show ?thesis by simp
    next
      case False
      with t [OF i] rl [OF i] show ?thesis by simp
    qed
  qed
  have body: "\<forall>i<length (rows model_out).
                 (sub_mask ! i \<noteq> 0 \<longrightarrow> rows ?out ! i = rows model_out ! i)
                 \<and> (sub_mask ! i = 0 \<longrightarrow>
                      length (rows ?out ! i) = ncols model_out
                      \<and> (\<forall>j<ncols model_out.
                            rows ?out ! i ! j = (if int j = NOT_SPLIT then Finite 1 else Finite 0)))"
  proof (intro allI impI conjI)
    fix i assume i: "i < length (rows model_out)" and "sub_mask ! i \<noteq> 0"
    then show "rows ?out ! i = rows model_out ! i" by (rule t)
  next
    fix i assume i: "i < length (rows model_out)" and z: "sub_mask ! i = 0"
    show "length (rows ?out ! i) = ncols model_out"
      unfolding f [OF i z] by simp
  next
    fix i j assume i: "i < length (rows model_out)" and z: "sub_mask ! i = 0" and j: "j < ?n"
    show "rows ?out ! i ! j = (if int j = NOT_SPLIT then Finite 1 else Finite 0)"
      unfolding f [OF i z] by (rule fillj [OF j])
  qed
  have "ncols ?out = ?n" by simp
  with res len wf body show ?thesis by blast
qed

theorem model_out_for_metrics_frame_witness:
  "model_out_for_metrics
     \<lparr>ncols = 2, rows = [[Finite 0.1, Finite 0.9], [Finite 0.3, Finite 0.7], [NaN, PosInf]]\<rparr>
     [1, 0, 0]
   = Inr \<lparr>ncols = 2, rows = [[Finite 0.1, Finite 0.9], [Finite 1, Finite 0], [Finite 1, Finite 0]]\<rparr>"
proof -
  let ?m = "\<lparr>ncols = 2, rows = [[Finite 0.1, Finite 0.9], [Finite 0.3, Finite 0.7], [NaN, PosInf]]\<rparr>"
  have h1: "wf_array2 ?m" by (simp add: wf_array2_def)
  have h2: "0 < ncols ?m" by simp
  have h3: "length [1, 0, 0 :: int] = length (rows ?m)" by simp
  from model_out_for_metrics_frame [OF h1 h2 h3]
  obtain out where "model_out_for_metrics ?m [1, 0, 0] = Inr out" by blast
  moreover have "model_out_for_metrics ?m [1, 0, 0] =
      Inr \<lparr>ncols = 2, rows = [[Finite 0.1, Finite 0.9], [Finite 1, Finite 0], [Finite 1, Finite 0]]\<rparr>"
    by (simp add: model_out_for_metrics_def fill_value_def NOT_SPLIT_def broadcast2_def numeral_2_eq_2)
  ultimately show ?thesis by simp
qed

end
